theory Spec2Isabelle
  imports Complex_Main "HOL-Library.Sublist" "HOL-Library.Log_Nat"
begin

section \<open>The performance monitor: data model\<close>

text \<open>
  The class \<open>PerformanceMonitor\<close> collects Core Web Vitals from browser observers, buffers
  metric samples and posts them to a reporting endpoint.

  JavaScript numbers are IEEE 754 doubles. A finite double is written as the real it
  denotes, and the numeric fields of a \<open>PerformanceEntry\<close> hold finite doubles (a decimal
  literal \<open>q\<close> of JavaScript is the double \<open>round_double q\<close>). Where the source
  subtracts, adds, multiplies or divides, the model takes the exact result and rounds
  it to the nearest double, ties to even, with overflow to an infinity (\<open>js_sub\<close>,
  \<open>js_add\<close>, \<open>js_mul\<close>, \<open>js_div\<close>); comparisons of doubles are exact. The sign of a
  zero is not modelled: a zero is \<open>+0\<close>, as every zero the browser supplies here is.
  The interaction id is an unsigned integer and is modelled as a natural. Opaque DOM
  references that the monitor only copies (\<open>element\<close>, \<open>sources\<close>, \<open>navigationTiming\<close>,
  \<open>memoryInfo\<close>) are left out.
\<close>

record PerformanceEntry =
  name :: string
  startTime :: real
  duration :: real
  interactionId :: nat
  "value" :: real
  hadRecentInput :: bool
  transferSize :: real
  encodedBodySize :: real
  decodedBodySize :: real
  responseEnd :: real

text \<open>What the browser supplies to one callback invocation.\<close>

record env =
  now :: nat
  href :: string
  userAgent :: string
  has_sendBeacon :: bool
  fetch_rejects :: bool

datatype error = TypeError

subsection \<open>Double-precision arithmetic\<close>

datatype js_num = Num real | PosInfinity | NegInfinity | NaN

definition pow2 :: "int \<Rightarrow> real" where
  "pow2 k = (if 0 \<le> k then 2 ^ nat k else 1 / 2 ^ nat (- k))"

text \<open>The integer nearest to \<open>x\<close>, the even one of the two when \<open>x\<close> lies half way.\<close>

definition round_even :: "real \<Rightarrow> int" where
  "round_even x =
     (let n = \<lfloor>x\<rfloor>; d = x - of_int n
      in if d < 1 / 2 then n else if 1 / 2 < d then n + 1 else if even n then n else n + 1)"

text \<open>
  The exponent \<open>e\<close> with \<open>2 ^ e \<le> \<bar>x\<bar> < 2 ^ (e + 1)\<close>, for \<open>x\<close> other than zero
  (\<open>bitlen\<close> is the number of binary digits of a positive integer).
\<close>

definition binade :: "real \<Rightarrow> int" where
  "binade x =
     (if 1 \<le> \<bar>x\<bar> then bitlen \<lfloor>\<bar>x\<bar>\<rfloor> - 1
      else - bitlen (\<lceil>1 / \<bar>x\<bar>\<rceil> - 1))"

text \<open>
  Rounding to the nearest number with a 53-bit significand, ties to even; below
  \<open>2 ^ (- 1022)\<close> the spacing stays \<open>2 ^ (- 1074)\<close> (subnormal numbers). \<open>fl\<close> is the
  double that an exact result rounds to: when rounding reaches \<open>2 ^ 1024\<close> the result
  is an infinity.
\<close>

definition round_double :: "real \<Rightarrow> real" where
  "round_double x =
     (if x = 0 then 0
      else let u = pow2 (max (binade x) (- 1022) - 52)
           in of_int (round_even (x / u)) * u)"

definition fl :: "real \<Rightarrow> js_num" where
  "fl x =
     (let r = round_double x
      in if 2 ^ 1024 \<le> r then PosInfinity
         else if r \<le> - (2 ^ 1024) then NegInfinity
         else Num r)"

fun js_neg :: "js_num \<Rightarrow> js_num" where
  "js_neg (Num a) = Num (- a)"
| "js_neg PosInfinity = NegInfinity"
| "js_neg NegInfinity = PosInfinity"
| "js_neg NaN = NaN"

fun js_add :: "js_num \<Rightarrow> js_num \<Rightarrow> js_num" where
  "js_add (Num a) (Num b) = fl (a + b)"
| "js_add NaN y = NaN"
| "js_add x NaN = NaN"
| "js_add PosInfinity NegInfinity = NaN"
| "js_add NegInfinity PosInfinity = NaN"
| "js_add PosInfinity y = PosInfinity"
| "js_add x PosInfinity = PosInfinity"
| "js_add NegInfinity y = NegInfinity"
| "js_add x NegInfinity = NegInfinity"

definition js_sub :: "js_num \<Rightarrow> js_num \<Rightarrow> js_num" where
  "js_sub x y = js_add x (js_neg y)"

fun js_mul :: "js_num \<Rightarrow> js_num \<Rightarrow> js_num" where
  "js_mul (Num a) (Num b) = fl (a * b)"
| "js_mul NaN y = NaN"
| "js_mul x NaN = NaN"
| "js_mul PosInfinity (Num b) =
     (if b = 0 then NaN else if 0 < b then PosInfinity else NegInfinity)"
| "js_mul NegInfinity (Num b) =
     (if b = 0 then NaN else if 0 < b then NegInfinity else PosInfinity)"
| "js_mul (Num a) PosInfinity =
     (if a = 0 then NaN else if 0 < a then PosInfinity else NegInfinity)"
| "js_mul (Num a) NegInfinity =
     (if a = 0 then NaN else if 0 < a then NegInfinity else PosInfinity)"
| "js_mul PosInfinity PosInfinity = PosInfinity"
| "js_mul NegInfinity NegInfinity = PosInfinity"
| "js_mul PosInfinity NegInfinity = NegInfinity"
| "js_mul NegInfinity PosInfinity = NegInfinity"

text \<open>Division; a zero divisor is \<open>+0\<close>.\<close>

fun js_div :: "js_num \<Rightarrow> js_num \<Rightarrow> js_num" where
  "js_div (Num a) (Num b) =
     (if b = 0 then (if a = 0 then NaN else if 0 < a then PosInfinity else NegInfinity)
      else fl (a / b))"
| "js_div NaN y = NaN"
| "js_div x NaN = NaN"
| "js_div (Num a) y = Num 0"
| "js_div PosInfinity (Num b) = (if 0 \<le> b then PosInfinity else NegInfinity)"
| "js_div NegInfinity (Num b) = (if 0 \<le> b then NegInfinity else PosInfinity)"
| "js_div x y = NaN"

text \<open>The comparison \<open><\<close> (false whenever an operand is \<open>NaN\<close>) and truthiness.\<close>

fun js_lt :: "js_num \<Rightarrow> js_num \<Rightarrow> bool" where
  "js_lt (Num a) (Num b) = (a < b)"
| "js_lt NaN y = False"
| "js_lt x NaN = False"
| "js_lt x NegInfinity = False"
| "js_lt PosInfinity y = False"
| "js_lt NegInfinity y = True"
| "js_lt x PosInfinity = True"

fun js_truthy :: "js_num \<Rightarrow> bool" where
  "js_truthy (Num a) = (a \<noteq> 0)"
| "js_truthy NaN = False"
| "js_truthy x = True"

text \<open>At most, or both the same number: the order used to state a maximum.\<close>

definition js_le :: "js_num \<Rightarrow> js_num \<Rightarrow> bool" where
  "js_le x y = (js_lt x y \<or> x = y)"

subsection \<open>Samples, metrics, the monitor\<close>

record vital =
  v_value :: js_num
  v_rating :: string
  v_timestamp :: nat
  v_interactions :: "nat option"

record interaction =
  int_id :: nat
  int_latency :: real
  int_timestamp :: real

record analysis =
  a_name :: string
  a_type :: string
  a_size :: real
  a_duration :: js_num
  a_cached :: bool
  a_compression :: js_num
  a_efficiency :: js_num
  a_issues :: "string list"

datatype metric_data = VitalData vital | ResourceData analysis | OtherData string

record sample =
  metric_name :: string
  metric_data :: metric_data
  metric_timestamp :: nat

record metrics =
  lcp :: "vital option"
  inp :: "vital option"
  cls :: "vital option"
  resourceCount :: nat
  userTimingCount :: nat
  customMetricCount :: nat

record report =
  r_url :: string
  r_userAgent :: string
  r_timestamp :: nat
  r_metrics :: "sample list"
  r_summary :: metrics

datatype transport = Beacon string report | Fetch string report

datatype console_line = ConsoleLog string | ConsoleError string

text \<open>
  A field that holds \<open>null\<close>, a live observer or timer, or one that has been
  disconnected or cleared.
\<close>

datatype handle = Absent | Active | Stopped

text \<open>
  The monitor object together with the variables its observer closures capture
  (\<open>interactions\<close> of \<open>measureINP\<close>; \<open>clsValue\<close>, \<open>sessionValue\<close> and \<open>sessionEntries\<close> of
  \<open>measureCLS\<close>) and the two effects a caller can see: the transport attempts made so
  far (\<open>outbox\<close>) and the console.
\<close>

record monitor =
  bufferSize :: nat
  debugMode :: bool
  reportingEndpoint :: string
  metrics :: metrics
  buffer :: "sample list"
  observer :: handle
  reportTimer :: handle
  interactions :: "interaction list"
  clsValue :: js_num
  sessionValue :: js_num
  sessionEntries :: "PerformanceEntry list"
  outbox :: "transport list"
  console :: "console_line list"

text \<open>
  The monitor as the constructor leaves it in a browser that has \<open>PerformanceObserver\<close>,
  for the options \<open>bufferSize\<close>, \<open>debugMode\<close> and \<open>reportingEndpoint\<close>.
\<close>

definition new_monitor :: "nat \<Rightarrow> bool \<Rightarrow> string \<Rightarrow> monitor" where
  "new_monitor n dbg endpoint =
     \<lparr>bufferSize = n, debugMode = dbg, reportingEndpoint = endpoint,
      metrics = \<lparr>lcp = None, inp = None, cls = None,
                 resourceCount = 0, userTimingCount = 0, customMetricCount = 0\<rparr>,
      buffer = [], observer = Active, reportTimer = Active, interactions = [],
      clsValue = Num 0, sessionValue = Num 0, sessionEntries = [], outbox = [],
      console = []\<rparr>"

section \<open>Rating functions\<close>

definition rateLCP :: "real \<Rightarrow> string" where
  "rateLCP v = (if v \<le> 2500 then ''good''
                else if v \<le> 4000 then ''needs-improvement'' else ''poor'')"

definition rateFID :: "real \<Rightarrow> string" where
  "rateFID v = (if v \<le> 100 then ''good''
                else if v \<le> 300 then ''needs-improvement'' else ''poor'')"

definition rateINP :: "real \<Rightarrow> string" where
  "rateINP v = (if v \<le> 200 then ''good''
                else if v \<le> 500 then ''needs-improvement'' else ''poor'')"

text \<open>
  The literal \<open>0.1\<close> of \<open>rateCLS\<close> denotes the double nearest to one tenth; the other
  thresholds are doubles as written.
\<close>

definition rateCLS :: "real \<Rightarrow> string" where
  "rateCLS v = (if v \<le> round_double 0.1 then ''good''
                else if v \<le> 0.25 then ''needs-improvement'' else ''poor'')"

definition rateFCP :: "real \<Rightarrow> string" where
  "rateFCP v = (if v \<le> 1800 then ''good''
                else if v \<le> 3000 then ''needs-improvement'' else ''poor'')"

definition rateTTI :: "real \<Rightarrow> string" where
  "rateTTI v = (if v \<le> 3800 then ''good''
                else if v \<le> 7300 then ''needs-improvement'' else ''poor'')"

text \<open>
  A rating function applied to a number that may be infinite: every \<open><=\<close> test holds of
  \<open>-Infinity\<close> and fails of \<open>Infinity\<close> and of \<open>NaN\<close>.
\<close>

fun rate_num :: "(real \<Rightarrow> string) \<Rightarrow> js_num \<Rightarrow> string" where
  "rate_num rate (Num v) = rate v"
| "rate_num rate NegInfinity = ''good''"
| "rate_num rate x = ''poor''"

section \<open>Report buffer and transport\<close>

definition log_msg :: "string \<Rightarrow> monitor \<Rightarrow> monitor" where
  "log_msg label st =
     (if debugMode st
      then st\<lparr>console := console st @ [ConsoleLog (''Performance Monitor - '' @ label @ '':'')]\<rparr>
      else st)"

definition getSummary :: "monitor \<Rightarrow> metrics" where
  "getSummary st = metrics st"

text \<open>
  \<open>sendReport\<close>: the \<open>catch\<close> handler of the \<open>fetch\<close> promise runs after the synchronous
  part, so its console line comes after the one of \<open>log\<close> (here \<open>log_msg\<close>).
\<close>

definition sendReport :: "env \<Rightarrow> bool \<Rightarrow> monitor \<Rightarrow> monitor" where
  "sendReport e immediate st =
     (if length (buffer st) = 0 then st
      else
        let rep = \<lparr>r_url = href e, r_userAgent = userAgent e, r_timestamp = now e,
                   r_metrics = buffer st, r_summary = getSummary st\<rparr>;
            st1 = st\<lparr>buffer := []\<rparr>;
            beacon = (immediate \<and> has_sendBeacon e);
            st2 = st1\<lparr>outbox := outbox st1 @
                    [if beacon then Beacon (reportingEndpoint st1) rep
                     else Fetch (reportingEndpoint st1) rep]\<rparr>;
            st3 = log_msg ''Performance report sent'' st2
        in if \<not> beacon \<and> fetch_rejects e \<and> debugMode st3
           then st3\<lparr>console := console st3 @
                      [ConsoleError ''Failed to send performance report:'']\<rparr>
           else st3)"

definition reportMetric :: "env \<Rightarrow> string \<Rightarrow> metric_data \<Rightarrow> monitor \<Rightarrow> monitor" where
  "reportMetric e nm d st =
     (let st1 = st\<lparr>buffer := buffer st @
                   [\<lparr>metric_name = nm, metric_data = d, metric_timestamp = now e\<rparr>]\<rparr>
      in if length (buffer st1) \<ge> bufferSize st1 then sendReport e False st1 else st1)"

definition destroy :: "env \<Rightarrow> monitor \<Rightarrow> monitor" where
  "destroy e st =
     (let st1 = (if observer st \<noteq> Absent then st\<lparr>observer := Stopped\<rparr> else st);
          st2 = (if reportTimer st1 \<noteq> Absent then st1\<lparr>reportTimer := Stopped\<rparr> else st1)
      in sendReport e True st2)"

section \<open>Observer callbacks\<close>

text \<open>
  \<open>forEach\<close> runs a callback body over the entries of a batch; an exception ends the
  loop. \<open>notify\<close> is the browser invoking one observer callback once per notification,
  each with its own environment readings; a run is followed up to the first exception.
\<close>

fun forEach :: "('a \<Rightarrow> monitor \<Rightarrow> error + monitor) \<Rightarrow> 'a list \<Rightarrow> monitor \<Rightarrow> error + monitor" where
  "forEach f [] st = Inr st"
| "forEach f (x # xs) st = (case f x st of Inl err \<Rightarrow> Inl err | Inr st' \<Rightarrow> forEach f xs st')"

definition notify ::
  "(env \<Rightarrow> PerformanceEntry list \<Rightarrow> monitor \<Rightarrow> error + monitor) \<Rightarrow>
   (env \<times> PerformanceEntry list) list \<Rightarrow> monitor \<Rightarrow> error + monitor" where
  "notify callback ns st = forEach (\<lambda>(e, entries). callback e entries) ns st"

text \<open>
  \<open>measureLCP\<close>: \<open>entries[entries.length - 1]\<close> of an empty batch is \<open>undefined\<close>, and
  reading its \<open>startTime\<close> throws.
\<close>

definition measureLCP_callback :: "env \<Rightarrow> PerformanceEntry list \<Rightarrow> monitor \<Rightarrow> error + monitor" where
  "measureLCP_callback e entries st =
     (if entries = [] then Inl TypeError
      else
        let lastEntry = entries ! (length entries - 1);
            v = \<lparr>v_value = Num (startTime lastEntry), v_rating = rateLCP (startTime lastEntry),
                 v_timestamp = now e, v_interactions = None\<rparr>;
            st1 = st\<lparr>metrics := (metrics st)\<lparr>lcp := Some v\<rparr>\<rparr>
        in Inr (reportMetric e ''lcp'' (VitalData v) (log_msg ''LCP'' st1)))"

definition percentile_index :: "nat \<Rightarrow> nat" where
  "percentile_index n = nat \<lfloor>real n * 0.98\<rfloor>"

text \<open>The object literal that \<open>measureINP\<close> pushes for an entry.\<close>

definition to_interaction :: "PerformanceEntry \<Rightarrow> interaction" where
  "to_interaction entry =
     \<lparr>int_id = interactionId entry, int_latency = duration entry,
      int_timestamp = startTime entry\<rparr>"

definition measureINP_entry :: "env \<Rightarrow> PerformanceEntry \<Rightarrow> monitor \<Rightarrow> monitor" where
  "measureINP_entry e entry st =
     (if interactionId entry \<noteq> 0 then
        let pushed = interactions st @ [to_interaction entry];
            kept = (if length pushed > 10 then drop (length pushed - 10) pushed else pushed);
            sortedLatencies = sort (map int_latency kept);
            i = sortedLatencies ! percentile_index (length sortedLatencies);
            v = \<lparr>v_value = Num i, v_rating = rateINP i, v_timestamp = now e,
                 v_interactions = Some (length kept)\<rparr>;
            st1 = st\<lparr>interactions := kept, metrics := (metrics st)\<lparr>inp := Some v\<rparr>\<rparr>
        in reportMetric e ''inp'' (VitalData v) (log_msg ''INP'' st1)
      else st)"

definition measureINP_callback :: "env \<Rightarrow> PerformanceEntry list \<Rightarrow> monitor \<Rightarrow> error + monitor" where
  "measureINP_callback e entries st = Inr (fold (measureINP_entry e) entries st)"

text \<open>
  \<open>measureCLS\<close>: \<open>sessionValue &&\<close> guards the reads of the first and last session entry;
  were \<open>sessionValue\<close> truthy with no session entry, those reads would throw. The two
  differences and the running sum are computed in doubles.
\<close>

definition measureCLS_entry :: "env \<Rightarrow> PerformanceEntry \<Rightarrow> monitor \<Rightarrow> error + monitor" where
  "measureCLS_entry e entry st =
     (if hadRecentInput entry then Inr st
      else if js_truthy (sessionValue st) \<and> sessionEntries st = [] then Inl TypeError
      else
        let st1 =
              (if js_truthy (sessionValue st) \<and>
                  js_lt (js_sub (Num (startTime entry))
                           (Num (startTime (last (sessionEntries st))))) (Num 1000) \<and>
                  js_lt (js_sub (Num (startTime entry))
                           (Num (startTime (hd (sessionEntries st))))) (Num 5000)
               then st\<lparr>sessionValue := js_add (sessionValue st) (Num (value entry)),
                       sessionEntries := sessionEntries st @ [entry]\<rparr>
               else st\<lparr>sessionValue := Num (value entry), sessionEntries := [entry]\<rparr>)
        in if js_lt (clsValue st1) (sessionValue st1) then
             let st2 = st1\<lparr>clsValue := sessionValue st1\<rparr>;
                 v = \<lparr>v_value = clsValue st2, v_rating = rate_num rateCLS (clsValue st2),
                      v_timestamp = now e, v_interactions = None\<rparr>;
                 st3 = st2\<lparr>metrics := (metrics st2)\<lparr>cls := Some v\<rparr>\<rparr>
             in Inr (reportMetric e ''cls'' (VitalData v) (log_msg ''CLS'' st3))
           else Inr st1)"

definition measureCLS_callback :: "env \<Rightarrow> PerformanceEntry list \<Rightarrow> monitor \<Rightarrow> error + monitor" where
  "measureCLS_callback e entries st = forEach (measureCLS_entry e) entries st"

section \<open>Resource classifier\<close>

text \<open>
  \<open>toFixed d\<close> gives the decimal with \<open>d\<close> digits after the point that is nearest to the
  exact value of a double, ties away from zero. The source keeps the string; the model
  keeps the number that the string denotes (\<open>js_toFixed\<close>, which leaves \<open>Infinity\<close>,
  \<open>-Infinity\<close> and \<open>NaN\<close> as they are), and \<open>string_to_number\<close> is the conversion to a
  double that a comparison with a number applies to the string.
  A regular expression \<open>\.(a|b)$\<close> holds of the strings that end in \<open>.a\<close> or \<open>.b\<close>.
\<close>

definition toFixed :: "nat \<Rightarrow> real \<Rightarrow> real" where
  "toFixed d x =
     (if x < 0 then - (of_int \<lfloor>- x * 10 ^ d + 1 / 2\<rfloor> / 10 ^ d)
      else of_int \<lfloor>x * 10 ^ d + 1 / 2\<rfloor> / 10 ^ d)"

fun js_toFixed :: "nat \<Rightarrow> js_num \<Rightarrow> js_num" where
  "js_toFixed d (Num x) = Num (toFixed d x)"
| "js_toFixed d x = x"

fun string_to_number :: "js_num \<Rightarrow> js_num" where
  "string_to_number (Num q) = fl q"
| "string_to_number x = x"

definition ends_with_ext :: "string list \<Rightarrow> string \<Rightarrow> bool" where
  "ends_with_ext exts url = list_ex (\<lambda>x. suffix (CHR ''.'' # x) url) exts"

definition getResourceType :: "string \<Rightarrow> string" where
  "getResourceType url =
     (if ends_with_ext [''css''] url then ''stylesheet''
      else if ends_with_ext [''js''] url then ''script''
      else if ends_with_ext [''png'', ''jpg'', ''jpeg'', ''gif'', ''webp'', ''avif'', ''svg''] url
        then ''image''
      else if ends_with_ext [''woff'', ''woff2'', ''ttf'', ''eot''] url then ''font''
      else if ends_with_ext [''mp4'', ''webm'', ''ogg''] url then ''video''
      else if sublist ''/api/'' url \<or> sublist ''wp-json'' url then ''api''
      else ''other'')"

text \<open>
  The object \<open>analysis\<close> as first built; \<open>duration\<close>, \<open>compression\<close> and \<open>efficiency\<close> are
  computed in doubles. \<open>compression_percent\<close> is the expression
  \<open>(decodedBodySize - encodedBodySize) / decodedBodySize * 100\<close>; with a positive encoded
  size and a decoded size of zero the quotient is a negative number over zero, which is
  \<open>-Infinity\<close>.
\<close>

definition compression_percent :: "PerformanceEntry \<Rightarrow> js_num" where
  "compression_percent entry =
     js_mul
       (js_div (js_sub (Num (decodedBodySize entry)) (Num (encodedBodySize entry)))
          (Num (decodedBodySize entry)))
       (Num 100)"

definition analyse :: "PerformanceEntry \<Rightarrow> analysis" where
  "analyse entry =
     \<lparr>a_name = name entry,
      a_type = getResourceType (name entry),
      a_size = transferSize entry,
      a_duration = js_sub (Num (responseEnd entry)) (Num (startTime entry)),
      a_cached = (transferSize entry = 0 \<and> decodedBodySize entry > 0),
      a_compression =
        (if encodedBodySize entry > 0 then js_toFixed 1 (compression_percent entry)
         else Num 0),
      a_efficiency =
        (if duration entry > 0
         then js_toFixed 2 (js_div (Num (transferSize entry)) (Num (duration entry)))
         else Num 0),
      a_issues = []\<rparr>"

definition resource_issues :: "PerformanceEntry \<Rightarrow> analysis \<Rightarrow> string list" where
  "resource_issues entry a =
     (if js_lt (Num 3000) (a_duration a) then [''slow_loading''] else []) @
     (if a_size a > 1000000 \<and> js_lt (string_to_number (a_compression a)) (Num 50)
      then [''poor_compression''] else []) @
     (if \<not> a_cached a \<and>
         ends_with_ext [''css'', ''js'', ''woff'', ''woff2'', ''png'', ''jpg'', ''jpeg''] (name entry)
      then [''not_cached''] else [])"

definition analyzeResourcePerformance :: "env \<Rightarrow> PerformanceEntry \<Rightarrow> monitor \<Rightarrow> monitor" where
  "analyzeResourcePerformance e entry st =
     (let a = analyse entry; issues = resource_issues entry a
      in if length issues > 0
         then reportMetric e ''resource_issue'' (ResourceData (a\<lparr>a_issues := issues\<rparr>)) st
         else st)"

section \<open>Observation functions and example inputs\<close>

text \<open>
  A sequence of \<open>reportMetric\<close> calls, each with its own environment readings, and the
  sample such a call appends.
\<close>

definition mk_sample :: "env \<times> string \<times> metric_data \<Rightarrow> sample" where
  "mk_sample c =
     (case c of (e, n, d) \<Rightarrow> \<lparr>metric_name = n, metric_data = d, metric_timestamp = now e\<rparr>)"

definition record_all :: "(env \<times> string \<times> metric_data) list \<Rightarrow> monitor \<Rightarrow> monitor" where
  "record_all calls st = fold (\<lambda>(e, n, d). reportMetric e n d) calls st"

fun is_beacon :: "transport \<Rightarrow> bool" where
  "is_beacon (Beacon url rep) = True"
| "is_beacon (Fetch url rep) = False"

fun payload :: "transport \<Rightarrow> report" where
  "payload (Beacon url rep) = rep"
| "payload (Fetch url rep) = rep"

text \<open>
  The sample most recently handed to the buffer: the last one buffered, or, when the
  buffer has just been flushed, the last one of the report sent last.
\<close>

definition last_recorded :: "monitor \<Rightarrow> sample option" where
  "last_recorded st =
     (if buffer st \<noteq> [] then Some (last (buffer st))
      else if outbox st \<noteq> [] then Some (last (r_metrics (payload (last (outbox st)))))
      else None)"

text \<open>The entries of a run of notifications, each with the environment of its batch.\<close>

definition tagged :: "(env \<times> PerformanceEntry list) list \<Rightarrow> (env \<times> PerformanceEntry) list" where
  "tagged ns = concat (map (\<lambda>(e, entries). map (Pair e) entries) ns)"

text \<open>
  The values \<open>sessionValue\<close> takes after each layout shift that is not ignored, in order.
\<close>

fun cls_session_sums :: "(env \<times> PerformanceEntry) list \<Rightarrow> monitor \<Rightarrow> js_num list" where
  "cls_session_sums [] st = []"
| "cls_session_sums ((e, x) # rest) st =
     (case measureCLS_entry e x st of
        Inl err \<Rightarrow> []
      | Inr st' \<Rightarrow> (if hadRecentInput x then [] else [sessionValue st']) @ cls_session_sums rest st')"

definition example_env :: env where
  "example_env =
     \<lparr>now = 1700000000000, href = ''https://thefalse9.com/'', userAgent = ''UA'',
      has_sendBeacon = True, fetch_rejects = False\<rparr>"

definition example_sample :: sample where
  "example_sample =
     \<lparr>metric_name = ''error'', metric_data = OtherData ''{}'',
      metric_timestamp = 1699999999000\<rparr>"

definition example_entry :: PerformanceEntry where
  "example_entry =
     \<lparr>name = ''https://thefalse9.com/style.css'', startTime = 0, duration = 0,
      interactionId = 0, value = 0, hadRecentInput = False, transferSize = 0,
      encodedBodySize = 0, decodedBodySize = 0, responseEnd = 0\<rparr>"

text \<open>An entry counts as an interaction when its \<open>interactionId\<close> is truthy.\<close>

definition has_id :: "PerformanceEntry \<Rightarrow> bool" where
  "has_id x = (interactionId x \<noteq> 0)"

definition example_interactions :: "PerformanceEntry list" where
  "example_interactions =
     map (\<lambda>d. example_entry\<lparr>interactionId := 1, duration := d\<rparr>)
       [40, 320, 90, 10, 250, 70, 610, 30, 120, 80, 55]"

text \<open>
  The sum of shift values as the code accumulates it: from the first value on, each
  further value is added in doubles, left to right.
\<close>

fun js_sum :: "real list \<Rightarrow> js_num" where
  "js_sum [] = Num 0"
| "js_sum (v # vs) = foldl (\<lambda>a b. js_add a (Num b)) (Num v) vs"

text \<open>
  What holds of the variables of \<open>measureCLS\<close> between entries: the session value is the
  sum of the session's shifts, neither variable is \<open>NaN\<close>, and a CLS sample has been
  stored exactly when \<open>clsValue\<close> has left zero, with that value and its rating.
\<close>

definition cls_inv :: "monitor \<Rightarrow> bool" where
  "cls_inv st =
     (sessionValue st = js_sum (map value (sessionEntries st)) \<and>
      sessionValue st \<noteq> NaN \<and> clsValue st \<noteq> NaN \<and>
      (case cls (metrics st) of
         None \<Rightarrow> clsValue st = Num 0
       | Some v \<Rightarrow>
           js_lt (Num 0) (clsValue st) \<and> v_value v = clsValue st \<and>
           v_rating v = rate_num rateCLS (clsValue st)))"

text \<open>The state a run ends in (the given default if it threw).\<close>

definition state_of :: "monitor \<Rightarrow> error + monitor \<Rightarrow> monitor" where
  "state_of d r = (case r of Inl err \<Rightarrow> d | Inr st \<Rightarrow> st)"

text \<open>
  Follows the spec's words, for comparison with \<open>measureCLS_entry\<close>: a shift starts a
  new session exactly when there is no session yet or its \<open>startTime\<close> exceeds 1000 ms
  from the session's last entry or 5000 ms from the session's first entry (the
  differences computed as the code computes them).
\<close>

definition spec_starts_new_session :: "monitor \<Rightarrow> PerformanceEntry \<Rightarrow> bool" where
  "spec_starts_new_session st x =
     (sessionEntries st = [] \<or>
      js_lt (Num 1000)
        (js_sub (Num (startTime x)) (Num (startTime (last (sessionEntries st))))) \<or>
      js_lt (Num 5000)
        (js_sub (Num (startTime x)) (Num (startTime (hd (sessionEntries st))))))"

definition example_shift :: "real \<Rightarrow> real \<Rightarrow> PerformanceEntry" where
  "example_shift t v = example_entry\<lparr>startTime := t, value := v\<rparr>"

definition example_resource :: "real \<Rightarrow> real \<Rightarrow> real \<Rightarrow> real \<Rightarrow> PerformanceEntry" where
  "example_resource t sz enc dec =
     example_entry\<lparr>responseEnd := t, transferSize := sz, encodedBodySize := enc,
                   decodedBodySize := dec\<rparr>"

section \<open>Evaluating double arithmetic\<close>

lemma bitlen_numeral [simp]:
  "bitlen (numeral (Num.Bit0 n)) = bitlen (numeral n) + 1"
  "bitlen (numeral (Num.Bit1 n)) = bitlen (numeral n) + 1"
  "bitlen 1 = 1"
  "bitlen (numeral Num.One) = 1"
  by (subst compute_bitlen, simp)+

lemmas js_eval =
  round_double_def binade_def round_even_def pow2_def fl_def js_sub_def Let_def

section \<open>Frame lemmas\<close>

lemma log_msg_frame [simp]:
  "bufferSize (log_msg l st) = bufferSize st"
  "debugMode (log_msg l st) = debugMode st"
  "reportingEndpoint (log_msg l st) = reportingEndpoint st"
  "metrics (log_msg l st) = metrics st"
  "buffer (log_msg l st) = buffer st"
  "observer (log_msg l st) = observer st"
  "reportTimer (log_msg l st) = reportTimer st"
  "interactions (log_msg l st) = interactions st"
  "clsValue (log_msg l st) = clsValue st"
  "sessionValue (log_msg l st) = sessionValue st"
  "sessionEntries (log_msg l st) = sessionEntries st"
  "outbox (log_msg l st) = outbox st"
  by (simp_all add: log_msg_def)

lemma sendReport_frame [simp]:
  "bufferSize (sendReport e i st) = bufferSize st"
  "debugMode (sendReport e i st) = debugMode st"
  "reportingEndpoint (sendReport e i st) = reportingEndpoint st"
  "metrics (sendReport e i st) = metrics st"
  "observer (sendReport e i st) = observer st"
  "reportTimer (sendReport e i st) = reportTimer st"
  "interactions (sendReport e i st) = interactions st"
  "clsValue (sendReport e i st) = clsValue st"
  "sessionValue (sendReport e i st) = sessionValue st"
  "sessionEntries (sendReport e i st) = sessionEntries st"
  by (simp_all add: sendReport_def Let_def)

lemma sendReport_buffer [simp]: "buffer (sendReport e i st) = []"
  by (simp add: sendReport_def Let_def)

lemma sendReport_outbox:
  "outbox (sendReport e i st) =
     outbox st @
     (if buffer st = [] then []
      else [(if i \<and> has_sendBeacon e then Beacon else Fetch) (reportingEndpoint st)
              \<lparr>r_url = href e, r_userAgent = userAgent e, r_timestamp = now e,
               r_metrics = buffer st, r_summary = getSummary st\<rparr>])"
  by (simp add: sendReport_def Let_def getSummary_def)

lemma reportMetric_frame [simp]:
  "bufferSize (reportMetric e n d st) = bufferSize st"
  "debugMode (reportMetric e n d st) = debugMode st"
  "reportingEndpoint (reportMetric e n d st) = reportingEndpoint st"
  "metrics (reportMetric e n d st) = metrics st"
  "observer (reportMetric e n d st) = observer st"
  "reportTimer (reportMetric e n d st) = reportTimer st"
  "interactions (reportMetric e n d st) = interactions st"
  "clsValue (reportMetric e n d st) = clsValue st"
  "sessionValue (reportMetric e n d st) = sessionValue st"
  "sessionEntries (reportMetric e n d st) = sessionEntries st"
  by (simp_all add: reportMetric_def Let_def)

lemma reportMetric_buffer:
  "buffer (reportMetric e n d st) =
     (if Suc (length (buffer st)) \<ge> bufferSize st then []
      else buffer st @ [\<lparr>metric_name = n, metric_data = d, metric_timestamp = now e\<rparr>])"
  by (simp add: reportMetric_def Let_def)

lemma reportMetric_outbox:
  "outbox (reportMetric e n d st) =
     (if Suc (length (buffer st)) \<ge> bufferSize st
      then outbox st @ [Fetch (reportingEndpoint st)
              \<lparr>r_url = href e, r_userAgent = userAgent e, r_timestamp = now e,
               r_metrics = buffer st @ [\<lparr>metric_name = n, metric_data = d, metric_timestamp = now e\<rparr>],
               r_summary = getSummary st\<rparr>]
      else outbox st)"
  by (simp add: reportMetric_def Let_def sendReport_outbox getSummary_def)

section \<open>Rating bands\<close>

text \<open>
  C9. Every rating function has bands that include their upper bound: a value is
  rated good exactly at or below the first threshold, needs-improvement exactly above
  the first and at or below the second, and poor exactly above the second; for LCP,
  2499 and 2500 are good, 2501 is needs-improvement and 4001 is poor. The first
  threshold of \<open>rateCLS\<close> is the double that the literal \<open>0.1\<close> denotes, and that
  double is itself rated good.
\<close>

theorem rating_bands_inclusive:
  "rateLCP 2499 = ''good'' \<and> rateLCP 2500 = ''good'' \<and>
   rateLCP 2501 = ''needs-improvement'' \<and> rateLCP 4001 = ''poor'' \<and>
   ((rateLCP v = ''good'') = (v \<le> 2500)) \<and>
   ((rateLCP v = ''needs-improvement'') = (2500 < v \<and> v \<le> 4000)) \<and>
   ((rateLCP v = ''poor'') = (4000 < v)) \<and>
   ((rateFID v = ''good'') = (v \<le> 100)) \<and>
   ((rateFID v = ''needs-improvement'') = (100 < v \<and> v \<le> 300)) \<and>
   ((rateFID v = ''poor'') = (300 < v)) \<and>
   ((rateINP v = ''good'') = (v \<le> 200)) \<and>
   ((rateINP v = ''needs-improvement'') = (200 < v \<and> v \<le> 500)) \<and>
   ((rateINP v = ''poor'') = (500 < v)) \<and>
   ((rateCLS v = ''good'') = (v \<le> round_double 0.1)) \<and>
   ((rateCLS v = ''needs-improvement'') = (round_double 0.1 < v \<and> v \<le> 0.25)) \<and>
   ((rateCLS v = ''poor'') = (0.25 < v)) \<and>
   round_double 0.1 = 3602879701896397 / 2 ^ 55 \<and> rateCLS (round_double 0.1) = ''good'' \<and>
   (v \<le> 0.1 \<longrightarrow> rateCLS v = ''good'') \<and>
   ((rateFCP v = ''good'') = (v \<le> 1800)) \<and>
   ((rateFCP v = ''needs-improvement'') = (1800 < v \<and> v \<le> 3000)) \<and>
   ((rateFCP v = ''poor'') = (3000 < v)) \<and>
   ((rateTTI v = ''good'') = (v \<le> 3800)) \<and>
   ((rateTTI v = ''needs-improvement'') = (3800 < v \<and> v \<le> 7300)) \<and>
   ((rateTTI v = ''poor'') = (7300 < v))"
proof -
  have tenth: "round_double 0.1 = 3602879701896397 / 2 ^ 55"
    by (simp add: js_eval)
  show ?thesis
    unfolding tenth
    by (simp add: rateLCP_def rateFID_def rateINP_def rateCLS_def tenth rateFCP_def rateTTI_def)
qed

theorem rating_bands_inclusive_witness:
  "(1 / 16 :: real) \<le> 0.1 \<and> rateCLS (1 / 16) = ''good'' \<and>
   rateCLS (round_double 0.1) = ''good'' \<and> rateCLS 0.25 = ''needs-improvement'' \<and>
   rateCLS 0.375 = ''poor''"
  using rating_bands_inclusive [of "1 / 16"] rating_bands_inclusive [of "0.25"]
    rating_bands_inclusive [of "0.375"]
  by simp

section \<open>Buffer capacity\<close>

lemma record_all_simps [simp]:
  "record_all [] st = st"
  "record_all ((e, n, d) # cs) st = record_all cs (reportMetric e n d st)"
  "record_all (xs @ ys) st = record_all ys (record_all xs st)"
  by (simp_all add: record_all_def)

lemma record_all_bufferSize [simp]: "bufferSize (record_all calls st) = bufferSize st"
  by (induction calls arbitrary: st) auto

lemma reportMetric_below:
  "Suc (length (buffer st)) < bufferSize st \<Longrightarrow>
   reportMetric e n d st = st\<lparr>buffer := buffer st @ [mk_sample (e, n, d)]\<rparr>"
  by (simp add: reportMetric_def Let_def mk_sample_def)

lemma record_all_below:
  "length (buffer st) + length calls < bufferSize st \<Longrightarrow>
   record_all calls st = st\<lparr>buffer := buffer st @ map mk_sample calls\<rparr>"
proof (induction calls arbitrary: st)
  case Nil
  then show ?case by simp
next
  case (Cons c cs)
  obtain e n d where c: "c = (e, n, d)" by (cases c) auto
  have 1: "Suc (length (buffer st)) < bufferSize st" using Cons.prems by simp
  let ?st1 = "st\<lparr>buffer := buffer st @ [mk_sample (e, n, d)]\<rparr>"
  have "length (buffer ?st1) + length cs < bufferSize ?st1" using Cons.prems by simp
  from Cons.IH[OF this] show ?case
    by (simp add: c reportMetric_below[OF 1])
qed

lemma record_all_flush_point:
  assumes B: "0 < bufferSize st" and k: "k = bufferSize st - Suc (length (buffer st))"
    and len: "k < length calls"
  shows "buffer (record_all (take (Suc k) calls) st) = []"
    and "length (outbox (record_all (take (Suc k) calls) st)) = Suc (length (outbox st))"
proof -
  have pre: "length (buffer st) + length (take k calls) < bufferSize st \<or> k = 0"
    using B k len by auto
  have stk: "buffer (record_all (take k calls) st) = buffer st @ map mk_sample (take k calls)
     \<and> outbox (record_all (take k calls) st) = outbox st"
  proof (cases "k = 0")
    case True then show ?thesis by simp
  next
    case False
    with pre have "length (buffer st) + length (take k calls) < bufferSize st" by simp
    from record_all_below[OF this] show ?thesis by simp
  qed
  obtain e n d where c: "calls ! k = (e, n, d)" by (cases "calls ! k") auto
  have tk: "take (Suc k) calls = take k calls @ [(e, n, d)]"
    using len c by (simp add: take_Suc_conv_app_nth)
  have full: "bufferSize st \<le> Suc (length (buffer (record_all (take k calls) st)))"
    using stk k len B by auto
  show "buffer (record_all (take (Suc k) calls) st) = []"
    using full by (simp add: tk reportMetric_buffer)
  show "length (outbox (record_all (take (Suc k) calls) st)) = Suc (length (outbox st))"
    using full stk by (simp add: tk reportMetric_outbox)
qed

text \<open>
  C3. With a positive \<open>bufferSize\<close>, \<open>bufferSize\<close> consecutive \<open>reportMetric\<close> calls from any
  buffer state trigger exactly one automatic flush: no report is sent during the first
  \<open>k\<close> calls, the call after them sends one and leaves the buffer empty, and no later
  call sends another (\<open>k\<close> is the room left in the buffer, less one). After every call
  the buffer holds fewer than \<open>bufferSize\<close> samples. Starting from an empty buffer the
  flush is caused by the last call, so the buffer is empty after all of them.
\<close>

theorem buffer_full_flush_once:
  assumes B: "0 < bufferSize st" and len: "length calls = bufferSize st"
  shows "let k = bufferSize st - Suc (length (buffer st)) in
     k < length calls \<and>
     (\<forall>j. j \<le> k \<longrightarrow> outbox (record_all (take j calls) st) = outbox st) \<and>
     buffer (record_all (take (Suc k) calls) st) = [] \<and>
     (\<forall>j. k < j \<and> j \<le> length calls \<longrightarrow>
        length (outbox (record_all (take j calls) st)) = Suc (length (outbox st))) \<and>
     (\<forall>j. 0 < j \<and> j \<le> length calls \<longrightarrow>
        length (buffer (record_all (take j calls) st)) < bufferSize st) \<and>
     (buffer st = [] \<longrightarrow> Suc k = length calls \<and> buffer (record_all calls st) = [])"
proof -
  define k where "k = bufferSize st - Suc (length (buffer st))"
  have klen: "k < length calls" using B len by (simp add: k_def)
  note fp = record_all_flush_point[OF B k_def klen]
  have early: "outbox (record_all (take j calls) st) = outbox st
      \<and> (0 < j \<longrightarrow> length (buffer (record_all (take j calls) st)) < bufferSize st)"
    if "j \<le> k" for j
  proof (cases "j = 0")
    case True then show ?thesis by simp
  next
    case False
    then have "length (buffer st) + length (take j calls) < bufferSize st"
      using that klen len by (auto simp: k_def)
    from record_all_below[OF this] show ?thesis using \<open>length (buffer st) + length (take j calls) < bufferSize st\<close>  by simp
  qed
  have late: "length (outbox (record_all (take j calls) st)) = Suc (length (outbox st))
      \<and> length (buffer (record_all (take j calls) st)) < bufferSize st"
    if "k < j" "j \<le> length calls" for j
  proof -
    let ?st1 = "record_all (take (Suc k) calls) st"
    let ?rest = "take (j - Suc k) (drop (Suc k) calls)"
    have split: "take j calls = take (Suc k) calls @ ?rest"
      using that by (metis Suc_leI le_add_diff_inverse take_add)
    have "length (buffer ?st1) + length ?rest < bufferSize ?st1"
      using fp(1) that len B by auto
    from record_all_below[OF this] show ?thesis
      using fp that len B by (simp add: split)
  qed
  have empty: "Suc k = length calls \<and> buffer (record_all calls st) = []" if "buffer st = []"
  proof -
    have "Suc k = length calls" using that B len by (simp add: k_def)
    with fp(1) show ?thesis by simp
  qed
  show ?thesis
    unfolding Let_def k_def[symmetric]
    using klen early late fp(1) empty
    by (metis not_le_imp_less)
qed

theorem buffer_full_flush_once_witness:
  "0 < bufferSize (new_monitor 2 False ''/api/performance'') \<and>
   length [(example_env, ''lcp'', OtherData ''a''), (example_env, ''fid'', OtherData ''b'')]
     = bufferSize (new_monitor 2 False ''/api/performance'') \<and>
   outbox (record_all [(example_env, ''lcp'', OtherData ''a'')]
     (new_monitor 2 False ''/api/performance'')) = [] \<and>
   length (outbox (record_all
     [(example_env, ''lcp'', OtherData ''a''), (example_env, ''fid'', OtherData ''b'')]
     (new_monitor 2 False ''/api/performance''))) = 1 \<and>
   buffer (record_all
     [(example_env, ''lcp'', OtherData ''a''), (example_env, ''fid'', OtherData ''b'')]
     (new_monitor 2 False ''/api/performance'')) = []"
proof -
  let ?st = "new_monitor 2 False ''/api/performance''"
  let ?calls = "[(example_env, ''lcp'', OtherData ''a''), (example_env, ''fid'', OtherData ''b'')]"
  have B: "0 < bufferSize ?st" by (simp add: new_monitor_def)
  have L: "length ?calls = bufferSize ?st" by (simp add: new_monitor_def)
  from buffer_full_flush_once [OF B L]
  have "buffer (record_all (take (Suc (bufferSize ?st - Suc (length (buffer ?st)))) ?calls) ?st) = []"
    unfolding Let_def by blast
  then show ?thesis
    by (simp add: new_monitor_def reportMetric_buffer reportMetric_outbox)
qed

section \<open>Flush, teardown\<close>

text \<open>
  C4. \<open>sendReport\<close> leaves the monitor unchanged when the buffer is empty. Otherwise,
  for every environment (so for every transport outcome) the buffer is empty
  afterwards, exactly one transport attempt is added, its envelope holds the url, the
  user agent, the timestamp, the whole former buffer as \<open>metrics\<close> and the summary, and
  the console gains an error line only in debug mode (and only when the request was
  made by \<open>fetch\<close> and was rejected).
\<close>

theorem sendReport_swaps_buffer:
  "(buffer st = [] \<longrightarrow> sendReport e immediate st = st) \<and>
   (buffer st \<noteq> [] \<longrightarrow>
      buffer (sendReport e immediate st) = [] \<and>
      outbox (sendReport e immediate st) =
        outbox st @
        [(if immediate \<and> has_sendBeacon e then Beacon else Fetch) (reportingEndpoint st)
           \<lparr>r_url = href e, r_userAgent = userAgent e, r_timestamp = now e,
            r_metrics = buffer st, r_summary = getSummary st\<rparr>] \<and>
      console (sendReport e immediate st) =
        console st @
        (if debugMode st
         then ConsoleLog ''Performance Monitor - Performance report sent:'' #
              (if \<not> (immediate \<and> has_sendBeacon e) \<and> fetch_rejects e
               then [ConsoleError ''Failed to send performance report:''] else [])
         else []))"
  by (simp add: sendReport_def Let_def log_msg_def getSummary_def)

theorem sendReport_swaps_buffer_witness:
  "buffer ((new_monitor 100 False ''/api/performance'')\<lparr>buffer := [example_sample]\<rparr>) \<noteq> [] \<and>
   buffer (sendReport (example_env\<lparr>fetch_rejects := True\<rparr>) False
     ((new_monitor 100 False ''/api/performance'')\<lparr>buffer := [example_sample]\<rparr>)) = [] \<and>
   console (sendReport (example_env\<lparr>fetch_rejects := True\<rparr>) False
     ((new_monitor 100 False ''/api/performance'')\<lparr>buffer := [example_sample]\<rparr>)) = [] \<and>
   buffer (new_monitor 100 False ''/api/performance'') = [] \<and>
   sendReport example_env False (new_monitor 100 False ''/api/performance'') =
     new_monitor 100 False ''/api/performance''"
  using sendReport_swaps_buffer
    [of "(new_monitor 100 False ''/api/performance'')\<lparr>buffer := [example_sample]\<rparr>"
        "example_env\<lparr>fetch_rejects := True\<rparr>" False]
    sendReport_swaps_buffer [of "new_monitor 100 False ''/api/performance''" example_env False]
  by (simp add: new_monitor_def)

text \<open>
  C5 (amended). \<open>destroy\<close> leaves no buffered sample and makes exactly one transport
  attempt if the buffer was not empty, none otherwise; the attempt goes through
  \<open>navigator.sendBeacon\<close> when the browser provides it and through \<open>fetch\<close> when it does
  not.
\<close>

theorem destroy_final_report:
  "buffer (destroy e st) = [] \<and>
   outbox (destroy e st) =
     outbox st @
     (if buffer st = [] then []
      else [(if has_sendBeacon e then Beacon else Fetch) (reportingEndpoint st)
              \<lparr>r_url = href e, r_userAgent = userAgent e, r_timestamp = now e,
               r_metrics = buffer st, r_summary = getSummary st\<rparr>])"
  by (simp add: destroy_def Let_def sendReport_outbox getSummary_def)

text \<open>
  In a browser without \<open>navigator.sendBeacon\<close>, a non-empty buffer is sent by \<open>fetch\<close>: no
  beacon is attempted.
\<close>

theorem destroy_without_beacon_counterexample:
  "buffer ((new_monitor 100 False ''/api/performance'')\<lparr>buffer := [example_sample]\<rparr>) \<noteq> [] \<and>
   \<not> list_ex is_beacon
      (outbox (destroy (example_env\<lparr>has_sendBeacon := False\<rparr>)
         ((new_monitor 100 False ''/api/performance'')\<lparr>buffer := [example_sample]\<rparr>)))"
  by (simp add: destroy_def Let_def sendReport_outbox new_monitor_def example_env_def)

lemma measureLCP_callback_buffer:
  assumes "entries \<noteq> []"
  shows "\<exists>st'. measureLCP_callback e entries st = Inr st' \<and>
     buffer st' =
       (if Suc (length (buffer st)) \<ge> bufferSize st then []
        else buffer st @
          [\<lparr>metric_name = ''lcp'',
            metric_data = VitalData
              \<lparr>v_value = Num (startTime (last entries)), v_rating = rateLCP (startTime (last entries)),
               v_timestamp = now e, v_interactions = None\<rparr>,
            metric_timestamp = now e\<rparr>])"
  using assms
  by (simp add: measureLCP_callback_def Let_def last_conv_nth reportMetric_buffer)

text \<open>
  C7 (amended). \<open>destroy\<close> empties the buffer and stops the stored observer and the
  report timer, but it does not disable recording: a later \<open>reportMetric\<close> call appends
  its sample as before. The buffer then holds exactly that sample when \<open>bufferSize\<close>
  is above 1; otherwise the sample is flushed at once by \<open>fetch\<close>. The callback of an
  observer that \<open>destroy\<close> does not hold, such as the LCP observer, records likewise
  when it is invoked afterwards.
\<close>

theorem record_after_destroy:
  "buffer (destroy e st) = [] \<and>
   observer (destroy e st) \<noteq> Active \<and> reportTimer (destroy e st) \<noteq> Active \<and>
   buffer (reportMetric e' n d (destroy e st)) =
     (if bufferSize st \<le> 1 then []
      else [\<lparr>metric_name = n, metric_data = d, metric_timestamp = now e'\<rparr>]) \<and>
   outbox (reportMetric e' n d (destroy e st)) =
     outbox (destroy e st) @
     (if bufferSize st \<le> 1
      then [Fetch (reportingEndpoint st)
              \<lparr>r_url = href e', r_userAgent = userAgent e', r_timestamp = now e',
               r_metrics = [\<lparr>metric_name = n, metric_data = d, metric_timestamp = now e'\<rparr>],
               r_summary = getSummary st\<rparr>]
      else []) \<and>
   (entries \<noteq> [] \<and> 1 < bufferSize st \<longrightarrow>
      (\<exists>st'. measureLCP_callback e' entries (destroy e st) = Inr st' \<and>
         map metric_name (buffer st') = [''lcp'']))"
proof -
  have b: "buffer (destroy e st) = []" by (simp add: destroy_def Let_def)
  have s: "bufferSize (destroy e st) = bufferSize st"
    "reportingEndpoint (destroy e st) = reportingEndpoint st"
    "getSummary (destroy e st) = getSummary st"
    by (simp_all add: destroy_def Let_def getSummary_def)
  have h: "observer (destroy e st) \<noteq> Active \<and> reportTimer (destroy e st) \<noteq> Active"
    by (cases "observer st"; cases "reportTimer st"; simp add: destroy_def Let_def)
  have l: "\<exists>st'. measureLCP_callback e' entries (destroy e st) = Inr st' \<and>
         map metric_name (buffer st') = [''lcp'']" if "entries \<noteq> []" "1 < bufferSize st"
    using measureLCP_callback_buffer[OF that(1), of e' "destroy e st"] that(2)
    by (auto simp: b s)
  show ?thesis using h l
    by (simp add: reportMetric_buffer reportMetric_outbox b s)
qed

text \<open>After \<open>destroy\<close>, a \<open>reportMetric\<close> call leaves a sample in the buffer.\<close>

theorem record_after_destroy_counterexample:
  "buffer (reportMetric example_env ''error'' (OtherData ''{}'')
     (destroy example_env (new_monitor 100 False ''/api/performance''))) \<noteq> []"
  by (simp add: reportMetric_buffer new_monitor_def destroy_def Let_def)

theorem record_after_destroy_witness:
  "[example_entry\<lparr>startTime := 1200\<rparr>] \<noteq> [] \<and>
   1 < bufferSize (new_monitor 100 False ''/api/performance'') \<and>
   buffer (reportMetric example_env ''error'' (OtherData ''{}'')
     (destroy example_env (new_monitor 100 False ''/api/performance''))) =
     [\<lparr>metric_name = ''error'', metric_data = OtherData ''{}'',
       metric_timestamp = now example_env\<rparr>] \<and>
   (\<exists>st'. measureLCP_callback example_env [example_entry\<lparr>startTime := 1200\<rparr>]
            (destroy example_env (new_monitor 100 False ''/api/performance'')) = Inr st' \<and>
      map metric_name (buffer st') = [''lcp''])"
  using record_after_destroy
    [of example_env "new_monitor 100 False ''/api/performance''" example_env "''error''"
        "OtherData ''{}''" "[example_entry\<lparr>startTime := 1200\<rparr>]"]
  by (simp add: new_monitor_def)

section \<open>Largest Contentful Paint\<close>

lemma forEach_append:
  "forEach f (xs @ ys) st = (case forEach f xs st of Inl err \<Rightarrow> Inl err | Inr st' \<Rightarrow> forEach f ys st')"
  by (induction xs arbitrary: st) (auto split: sum.splits)

lemma notify_snoc:
  "notify cb (ns @ [(e, entries)]) st =
     (case notify cb ns st of Inl err \<Rightarrow> Inl err | Inr st' \<Rightarrow> cb e entries st')"
  by (simp add: notify_def forEach_append split: sum.splits)

lemma last_recorded_reportMetric:
  "last_recorded (reportMetric e n d st) =
     Some \<lparr>metric_name = n, metric_data = d, metric_timestamp = now e\<rparr>"
  by (simp add: last_recorded_def reportMetric_buffer reportMetric_outbox)

lemma measureLCP_callback_nonempty:
  assumes "entries \<noteq> []"
  shows "\<exists>st'. measureLCP_callback e entries st = Inr st' \<and>
           lcp (metrics st') =
             Some \<lparr>v_value = Num (startTime (last entries)), v_rating = rateLCP (startTime (last entries)),
                   v_timestamp = now e, v_interactions = None\<rparr> \<and>
           last_recorded st' =
             Some \<lparr>metric_name = ''lcp'',
                   metric_data = VitalData
                     \<lparr>v_value = Num (startTime (last entries)),
                      v_rating = rateLCP (startTime (last entries)),
                      v_timestamp = now e, v_interactions = None\<rparr>,
                   metric_timestamp = now e\<rparr>"
  using assms
  by (simp add: measureLCP_callback_def Let_def last_conv_nth last_recorded_reportMetric)

lemma notify_LCP_total:
  "\<forall>b \<in> set ns. snd b \<noteq> [] \<Longrightarrow> \<exists>st'. notify measureLCP_callback ns st = Inr st'"
proof (induction ns rule: rev_induct)
  case Nil
  then show ?case by (simp add: notify_def)
next
  case (snoc b ns)
  obtain e entries where b: "b = (e, entries)" by (cases b) auto
  from snoc obtain st1 where st1: "notify measureLCP_callback ns st = Inr st1" by auto
  from snoc.prems b have "entries \<noteq> []" by auto
  from measureLCP_callback_nonempty[OF this, of e st1] st1 show ?case
    by (auto simp: b notify_snoc)
qed

text \<open>
  C6. After any non-empty run of LCP notifications (the browser never delivers an empty
  batch), the LCP value held in the metrics is the \<open>startTime\<close> of the last entry of the
  latest batch, rated by \<open>rateLCP\<close>, and it is the sample recorded last.
\<close>

theorem lcp_reports_latest_entry:
  assumes "ns \<noteq> []" and "\<forall>b \<in> set ns. snd b \<noteq> []"
  shows "\<exists>st'. notify measureLCP_callback ns st = Inr st' \<and>
           map_option v_value (lcp (metrics st')) = Some (Num (startTime (last (snd (last ns))))) \<and>
           map_option v_rating (lcp (metrics st')) = Some (rateLCP (startTime (last (snd (last ns))))) \<and>
           map_option metric_data (last_recorded st') = map_option VitalData (lcp (metrics st'))"
proof -
  from assms(1) obtain ms b where ns: "ns = ms @ [b]" by (cases ns rule: rev_cases) auto
  obtain e entries where b: "b = (e, entries)" by (cases b) auto
  from assms(2) have "\<forall>b \<in> set ms. snd b \<noteq> []" and ne: "entries \<noteq> []" by (auto simp: ns b)
  from notify_LCP_total[OF this(1)] obtain st1 where st1: "notify measureLCP_callback ms st = Inr st1"
    by blast
  from measureLCP_callback_nonempty[OF ne, of e st1] st1 show ?thesis
    by (auto simp: ns b notify_snoc)
qed

theorem lcp_reports_latest_entry_witness:
  "[(example_env, [example_entry\<lparr>startTime := 800\<rparr>, example_entry\<lparr>startTime := 2600\<rparr>]),
    (example_env, [example_entry\<lparr>startTime := 1200\<rparr>])] \<noteq> [] \<and>
   (\<exists>st'. notify measureLCP_callback
      [(example_env, [example_entry\<lparr>startTime := 800\<rparr>, example_entry\<lparr>startTime := 2600\<rparr>]),
       (example_env, [example_entry\<lparr>startTime := 1200\<rparr>])]
      (new_monitor 100 False ''/api/performance'') = Inr st' \<and>
      map_option v_value (lcp (metrics st')) = Some (Num 1200) \<and>
      map_option v_rating (lcp (metrics st')) = Some ''good'')"
  using lcp_reports_latest_entry
    [of "[(example_env, [example_entry\<lparr>startTime := 800\<rparr>, example_entry\<lparr>startTime := 2600\<rparr>]),
          (example_env, [example_entry\<lparr>startTime := 1200\<rparr>])]"
        "new_monitor 100 False ''/api/performance''"]
  by (auto simp add: rateLCP_def)

section \<open>Interaction to Next Paint\<close>

lemma fold_tagged_batch:
  "fold (\<lambda>(e, x). g e x) (map (Pair e) xs) st = fold (g e) xs st"
  by (induction xs arbitrary: st) auto

lemma notify_INP:
  "notify measureINP_callback ns st = Inr (fold (\<lambda>(e, x). measureINP_entry e x) (tagged ns) st)"
proof (induction ns arbitrary: st)
  case Nil
  then show ?case by (simp add: notify_def tagged_def)
next
  case (Cons b ns)
  obtain e entries where b: "b = (e, entries)" by (cases b) auto
  from Cons[of "fold (measureINP_entry e) entries st"] show ?case
    by (simp add: notify_def tagged_def b measureINP_callback_def fold_tagged_batch)
qed

lemma map_snd_tagged: "map snd (tagged ns) = concat (map snd ns)"
  by (induction ns) (auto simp: tagged_def comp_def)

lemma percentile_index_below: "0 < n \<Longrightarrow> percentile_index n < n"
proof -
  assume n: "0 < n"
  have "real n * 0.98 < real n" using n by simp
  then have "\<lfloor>real n * 0.98\<rfloor> < int n" by (simp add: floor_less_iff)
  then show ?thesis using n by (simp add: percentile_index_def)
qed

lemma percentile_index_small: "0 < n \<Longrightarrow> n \<le> 50 \<Longrightarrow> percentile_index n = n - 1"
proof -
  assume n: "0 < n" "n \<le> 50"
  have "\<lfloor>real n * 0.98\<rfloor> = int n - 1"
  proof (rule floor_unique)
    have "real n * 0.02 \<le> 1" using n by simp
    then show "of_int (int n - 1) \<le> real n * 0.98" by (simp add: algebra_simps)
    show "real n * 0.98 < of_int (int n - 1) + 1" using n by simp
  qed
  then show ?thesis using n by (simp add: percentile_index_def)
qed

lemma last_sorted_Max: "xs \<noteq> [] \<Longrightarrow> sorted xs \<Longrightarrow> last xs = Max (set xs)"
proof (induction xs)
  case Nil
  then show ?case by simp
next
  case (Cons x xs)
  show ?case
  proof (cases "xs = []")
    case True
    then show ?thesis by simp
  next
    case False
    with Cons have "last xs = Max (set xs)" by simp
    moreover have "x \<le> Max (set xs)"
    proof -
      have "hd xs \<in> set xs" using False by simp
      then have "x \<le> hd xs" and "hd xs \<le> Max (set xs)" using Cons.prems by auto
      then show ?thesis by simp
    qed
    ultimately show ?thesis using False by (simp add: max_absorb2)
  qed
qed

lemma sort_top_Max:
  "xs \<noteq> [] \<Longrightarrow> sort xs ! (length xs - 1) = Max (set xs)"
proof -
  assume ne: "xs \<noteq> []"
  then have "sort xs \<noteq> []" by (metis length_0_conv length_sort)
  then have "last (sort xs) = Max (set (sort xs))" by (rule last_sorted_Max) simp
  moreover have "last (sort xs) = sort xs ! (length xs - 1)"
    using \<open>sort xs \<noteq> []\<close> by (simp add: last_conv_nth)
  ultimately show ?thesis by simp
qed

lemma window_step:
  "(let p = drop (length w - 10) w @ [x]
    in if length p > 10 then drop (length p - 10) p else p) =
   drop (length (w @ [x]) - 10) (w @ [x])"
proof (cases "length w \<le> 9")
  case True
  then show ?thesis by (auto simp: Let_def)
next
  case False
  then have "Suc (length w - 10) = length w - 9" by arith
  with False show ?thesis by (auto simp: Let_def)
qed

lemma measureINP_entry_skip: "interactionId x = 0 \<Longrightarrow> measureINP_entry e x st = st"
  by (simp add: measureINP_entry_def)

lemma measureINP_entry_push:
  fixes st :: monitor and e :: env and x :: PerformanceEntry
  assumes "interactionId x \<noteq> 0"
  defines "p \<equiv> interactions st @ [to_interaction x]"
  defines "kept \<equiv> (if length p > 10 then drop (length p - 10) p else p)"
  defines "v \<equiv> \<lparr>v_value = Num (sort (map int_latency kept) ! percentile_index (length kept)),
                v_rating = rateINP (sort (map int_latency kept) ! percentile_index (length kept)),
                v_timestamp = now e, v_interactions = Some (length kept)\<rparr>"
  shows "interactions (measureINP_entry e x st) = kept"
    and "inp (metrics (measureINP_entry e x st)) = Some v"
    and "last_recorded (measureINP_entry e x st) =
           Some \<lparr>metric_name = ''inp'', metric_data = VitalData v, metric_timestamp = now e\<rparr>"
  using assms(1)
  by (simp_all add: measureINP_entry_def Let_def p_def kept_def v_def last_recorded_reportMetric)

lemma inp_window_inv:
  assumes init: "interactions st = []"
  shows "interactions (fold (\<lambda>(e, x). measureINP_entry e x) tes st) =
           map to_interaction
             (drop (length (filter has_id (map snd tes)) - 10) (filter has_id (map snd tes)))"
proof (induction tes rule: rev_induct)
  case Nil
  then show ?case by (simp add: init)
next
  case (snoc t tes)
  obtain e x where t: "t = (e, x)" by (cases t) auto
  let ?st1 = "fold (\<lambda>(e, x). measureINP_entry e x) tes st"
  let ?w = "filter has_id (map snd tes)"
  show ?case
  proof (cases "interactionId x = 0")
    case True
    then have "\<not> has_id x" by (simp add: has_id_def)
    then show ?thesis using snoc True by (simp add: t measureINP_entry_skip)
  next
    case False
    then have "has_id x" by (simp add: has_id_def)
    have "interactions (measureINP_entry e x ?st1) =
        (let p = map to_interaction (drop (length ?w - 10) ?w @ [x])
         in if length p > 10 then drop (length p - 10) p else p)"
      using measureINP_entry_push(1)[OF False, where st = ?st1 and e = e] snoc by (simp add: Let_def)
    also have "\<dots> = map to_interaction
        (let p = drop (length ?w - 10) ?w @ [x]
         in if length p > 10 then drop (length p - 10) p else p)"
      by (simp add: Let_def drop_map)
    also have "\<dots> = map to_interaction (drop (length (?w @ [x]) - 10) (?w @ [x]))"
      by (simp only: window_step)
    finally show ?thesis using \<open>has_id x\<close> by (simp add: t)
  qed
qed

lemma inp_value_inv:
  assumes "\<exists>t \<in> set tes. interactionId (snd t) \<noteq> 0"
  shows "\<exists>v. inp (metrics (fold (\<lambda>(e, x). measureINP_entry e x) tes st)) = Some v \<and>
     v_value v = Num (sort (map int_latency (interactions (fold (\<lambda>(e, x). measureINP_entry e x) tes st)))
                   ! percentile_index (length (interactions (fold (\<lambda>(e, x). measureINP_entry e x) tes st)))) \<and>
     interactions (fold (\<lambda>(e, x). measureINP_entry e x) tes st) \<noteq> []"
  using assms
proof (induction tes rule: rev_induct)
  case Nil
  then show ?case by simp
next
  case (snoc t tes)
  obtain e x where t: "t = (e, x)" by (cases t) auto
  let ?st1 = "fold (\<lambda>(e, x). measureINP_entry e x) tes st"
  show ?case
  proof (cases "interactionId x = 0")
    case True
    with snoc show ?thesis by (auto simp: t measureINP_entry_skip)
  next
    case False
    from measureINP_entry_push(1,2)[OF False, where st = ?st1 and e = e] show ?thesis
      by (auto simp: t)
  qed
qed

lemma inp_last_recorded:
  assumes "tes \<noteq> []" and "interactionId (snd (last tes)) \<noteq> 0"
  shows "map_option metric_data (last_recorded (fold (\<lambda>(e, x). measureINP_entry e x) tes st)) =
         map_option VitalData (inp (metrics (fold (\<lambda>(e, x). measureINP_entry e x) tes st)))"
proof -
  from assms(1) obtain ts t where tes: "tes = ts @ [t]" by (cases tes rule: rev_cases) auto
  obtain e x where t: "t = (e, x)" by (cases t) auto
  from assms(2) have "interactionId x \<noteq> 0" by (simp add: tes t)
  from measureINP_entry_push(2,3)[OF this, where e = e and st = "fold (\<lambda>(e, x). measureINP_entry e x) ts st"]
  show ?thesis by (simp add: tes t)
qed

text \<open>
  C2. Starting with no interaction stored, after any run of event notifications whose
  entries all carry an interaction id, the window holds the last ten entries in arrival
  order (after eleven entries: all but the first), the percentile index lies inside the
  sorted latencies, and the INP held in the metrics, which is the sample recorded last,
  is the sorted latency at index \<open>floor (n * 0.98)\<close>.
\<close>

theorem inp_window_last_ten:
  assumes "interactions st = []"
    and "\<forall>x \<in> set (concat (map snd ns)). interactionId x \<noteq> 0"
    and "concat (map snd ns) \<noteq> []"
  shows "\<exists>st'. notify measureINP_callback ns st = Inr st' \<and>
     interactions st' =
       map to_interaction (drop (length (concat (map snd ns)) - 10) (concat (map snd ns))) \<and>
     (length (concat (map snd ns)) = 11 \<longrightarrow>
        interactions st' = map to_interaction (tl (concat (map snd ns)))) \<and>
     percentile_index (length (interactions st')) < length (interactions st') \<and>
     map_option v_value (inp (metrics st')) =
       Some (Num (sort (map int_latency (interactions st')) ! percentile_index (length (interactions st')))) \<and>
     map_option metric_data (last_recorded st') = map_option VitalData (inp (metrics st'))"
proof -
  let ?es = "concat (map snd ns)"
  let ?st' = "fold (\<lambda>(e, x). measureINP_entry e x) (tagged ns) st"
  have all: "filter has_id (map snd (tagged ns)) = ?es"
    using assms(2) by (simp add: map_snd_tagged has_id_def)
  have win: "interactions ?st' = map to_interaction (drop (length ?es - 10) ?es)"
    using inp_window_inv[OF assms(1), of "tagged ns"] by (simp add: all)
  have ne: "tagged ns \<noteq> []"
  proof
    assume "tagged ns = []"
    then have "map snd (tagged ns) = []" by simp
    with assms(3) show False by (simp add: map_snd_tagged)
  qed
  have "last (map snd (tagged ns)) \<in> set ?es"
    using ne by (metis last_in_set map_is_Nil_conv map_snd_tagged)
  then have "snd (last (tagged ns)) \<in> set ?es"
    using ne by (simp add: last_map)
  then have lastid: "interactionId (snd (last (tagged ns))) \<noteq> 0"
    using assms(2) by blast
  have "\<exists>t \<in> set (tagged ns). interactionId (snd t) \<noteq> 0"
    using ne lastid last_in_set by blast
  from inp_value_inv[OF this, of st] obtain v where v: "inp (metrics ?st') = Some v"
    "v_value v = Num (sort (map int_latency (interactions ?st')) ! percentile_index (length (interactions ?st')))"
    "interactions ?st' \<noteq> []" by blast
  have eleven: "interactions ?st' = map to_interaction (tl ?es)" if "length ?es = 11"
    using win that by (simp add: drop_Suc)
  have idx: "percentile_index (length (interactions ?st')) < length (interactions ?st')"
    using v(3) by (simp add: percentile_index_below)
  show ?thesis
    using win eleven idx v(1,2) inp_last_recorded[OF ne lastid, of st]
    by (simp add: notify_INP)
qed

text \<open>
  C10. For \<open>1 \<le> n \<le> 10\<close> the index \<open>floor (n * 0.98)\<close> is \<open>n - 1\<close>. The window never holds
  more than ten interactions, so once an interaction has been seen the INP held in the
  metrics is the largest latency in the window.
\<close>

theorem inp_is_window_maximum:
  assumes "interactions st = []"
    and "\<exists>x \<in> set (concat (map snd ns)). interactionId x \<noteq> 0"
  shows "(\<forall>n. 1 \<le> n \<and> n \<le> 10 \<longrightarrow> percentile_index n = n - 1) \<and>
     (\<exists>st'. notify measureINP_callback ns st = Inr st' \<and>
        1 \<le> length (interactions st') \<and> length (interactions st') \<le> 10 \<and>
        percentile_index (length (interactions st')) = length (interactions st') - 1 \<and>
        map_option v_value (inp (metrics st')) =
          Some (Num (Max (set (map int_latency (interactions st'))))))"
proof -
  let ?st' = "fold (\<lambda>(e, x). measureINP_entry e x) (tagged ns) st"
  let ?w = "filter has_id (map snd (tagged ns))"
  have small: "\<forall>n. 1 \<le> n \<and> n \<le> 10 \<longrightarrow> percentile_index n = n - 1"
    by (simp add: percentile_index_small)
  have "\<exists>t \<in> set (tagged ns). interactionId (snd t) \<noteq> 0"
    using assms(2) map_snd_tagged[of ns] by (metis (no_types, lifting) image_iff set_map)
  from inp_value_inv[OF this, of st] obtain v where v: "inp (metrics ?st') = Some v"
    "v_value v = Num (sort (map int_latency (interactions ?st')) ! percentile_index (length (interactions ?st')))"
    "interactions ?st' \<noteq> []" by blast
  have "interactions ?st' = map to_interaction (drop (length ?w - 10) ?w)"
    by (rule inp_window_inv[OF assms(1)])
  then have le: "length (interactions ?st') \<le> 10" by simp
  have ge: "1 \<le> length (interactions ?st')" using v(3) by (simp add: Suc_le_eq)
  have idx: "percentile_index (length (interactions ?st')) = length (interactions ?st') - 1"
  proof -
    have "0 < length (interactions ?st')" and "length (interactions ?st') \<le> 50"
      using le v(3) by simp_all
    then show ?thesis by (rule percentile_index_small)
  qed
  have "v_value v = Num (Max (set (map int_latency (interactions ?st'))))"
    using v(2,3) sort_top_Max[of "map int_latency (interactions ?st')"] by (simp add: idx)
  then show ?thesis using small le ge idx v(1) by (simp add: notify_INP)
qed

theorem inp_window_last_ten_witness:
  "interactions (new_monitor 100 False ''/api/performance'') = [] \<and>
   length (concat (map snd [(example_env, example_interactions)])) = 11 \<and>
   (\<exists>st'. notify measureINP_callback [(example_env, example_interactions)]
            (new_monitor 100 False ''/api/performance'') = Inr st' \<and>
      map int_latency (interactions st') = [320, 90, 10, 250, 70, 610, 30, 120, 80, 55] \<and>
      map_option v_value (inp (metrics st')) = Some (Num 610))"
proof -
  let ?st = "new_monitor 100 False ''/api/performance''"
  let ?ns = "[(example_env, example_interactions)]"
  have 1: "interactions ?st = []" by (simp add: new_monitor_def)
  have 2: "\<forall>x \<in> set (concat (map snd ?ns)). interactionId x \<noteq> 0"
    by (simp add: example_interactions_def)
  have 3: "concat (map snd ?ns) \<noteq> []" by (simp add: example_interactions_def)
  have 4: "length (concat (map snd ?ns)) = 11" by (simp add: example_interactions_def)
  from inp_window_last_ten [OF 1 2 3] obtain st' where
    r: "notify measureINP_callback ?ns ?st = Inr st'"
    and w: "interactions st' = map to_interaction (tl (concat (map snd ?ns)))"
    and v: "map_option v_value (inp (metrics st')) =
       Some (Num (sort (map int_latency (interactions st')) ! percentile_index (length (interactions st'))))"
    using 4 by blast
  have lat: "map int_latency (interactions st') = [320, 90, 10, 250, 70, 610, 30, 120, 80, 55]"
    by (simp add: w example_interactions_def to_interaction_def)
  have len: "length (interactions st') = 10"
    by (simp add: w example_interactions_def)
  have "sort (map int_latency (interactions st')) ! percentile_index (length (interactions st')) = 610"
    by (simp add: lat len percentile_index_def)
  with v have "map_option v_value (inp (metrics st')) = Some (Num 610)"
    by simp
  with r lat 1 4 show ?thesis by (intro conjI exI[of _ st']) simp_all
qed

theorem inp_is_window_maximum_witness:
  "interactions (new_monitor 100 False ''/api/performance'') = [] \<and>
   percentile_index 10 = 9 \<and>
   (\<exists>st'. notify measureINP_callback [(example_env, example_interactions)]
            (new_monitor 100 False ''/api/performance'') = Inr st' \<and>
      length (interactions st') \<le> 10 \<and>
      map_option v_value (inp (metrics st')) =
        Some (Num (Max (set (map int_latency (interactions st'))))))"
proof -
  let ?st = "new_monitor 100 False ''/api/performance''"
  let ?ns = "[(example_env, example_interactions)]"
  have 1: "interactions ?st = []" by (simp add: new_monitor_def)
  have 2: "\<exists>x \<in> set (concat (map snd ?ns)). interactionId x \<noteq> 0"
    by (simp add: example_interactions_def)
  from inp_is_window_maximum [OF 1 2] show ?thesis
    using 1 by (auto simp: percentile_index_def)
qed

section \<open>Cumulative Layout Shift\<close>

lemma fl_not_NaN [simp]: "fl x \<noteq> NaN"
  by (simp add: fl_def Let_def)

lemma js_add_Num_not_NaN: "x \<noteq> NaN \<Longrightarrow> js_add x (Num v) \<noteq> NaN"
  by (cases x) simp_all

lemma js_lt_trans: "js_lt x y \<Longrightarrow> js_lt y z \<Longrightarrow> js_lt x z"
  by (cases x; cases y; cases z) simp_all

lemma js_lt_irrefl [simp]: "\<not> js_lt x x"
  by (cases x) simp_all

lemma js_le_refl [simp]: "js_le x x"
  by (simp add: js_le_def)

lemma js_le_trans: "js_le x y \<Longrightarrow> js_le y z \<Longrightarrow> js_le x z"
  by (auto simp: js_le_def intro: js_lt_trans)

lemma js_lt_le_trans: "js_lt x y \<Longrightarrow> js_le y z \<Longrightarrow> js_lt x z"
  by (auto simp: js_le_def intro: js_lt_trans)

lemma js_le_lt_trans: "js_le x y \<Longrightarrow> js_lt y z \<Longrightarrow> js_lt x z"
  by (auto simp: js_le_def intro: js_lt_trans)

lemma js_not_lt: "x \<noteq> NaN \<Longrightarrow> y \<noteq> NaN \<Longrightarrow> \<not> js_lt x y \<Longrightarrow> js_le y x"
  by (cases x; cases y) (auto simp add: js_le_def)

lemma js_sum_snoc: "vs \<noteq> [] \<Longrightarrow> js_sum (vs @ [b]) = js_add (js_sum vs) (Num b)"
  by (cases vs) simp_all

lemma cls_inv_not_NaN: "cls_inv st \<Longrightarrow> clsValue st \<noteq> NaN \<and> sessionValue st \<noteq> NaN"
  unfolding cls_inv_def by blast

lemma cls_inv_nonneg: "cls_inv st \<Longrightarrow> js_le (Num 0) (clsValue st)"
  by (auto simp: cls_inv_def js_le_def split: option.splits)

lemma cls_entry_ignored: "hadRecentInput x \<Longrightarrow> measureCLS_entry e x st = Inr st"
  by (simp add: measureCLS_entry_def)

lemma cls_entry_step:
  assumes inv: "cls_inv st" and x: "\<not> hadRecentInput x"
  shows "\<exists>st'. measureCLS_entry e x st = Inr st' \<and> cls_inv st' \<and>
     (sessionValue st', sessionEntries st') =
       (if js_truthy (sessionValue st) \<and>
           js_lt (js_sub (Num (startTime x)) (Num (startTime (last (sessionEntries st)))))
             (Num 1000) \<and>
           js_lt (js_sub (Num (startTime x)) (Num (startTime (hd (sessionEntries st)))))
             (Num 5000)
        then (js_add (sessionValue st) (Num (value x)), sessionEntries st @ [x])
        else (Num (value x), [x])) \<and>
     clsValue st' =
       (if js_lt (clsValue st) (sessionValue st') then sessionValue st' else clsValue st)"
proof -
  have ne: "js_truthy (sessionValue st) \<Longrightarrow> sessionEntries st \<noteq> []"
    using inv by (auto simp: cls_inv_def)
  have nn: "clsValue st \<noteq> NaN" "sessionValue st \<noteq> NaN"
    using cls_inv_not_NaN[OF inv] by blast+
  have pos: "js_le (Num 0) (clsValue st)" using inv by (rule cls_inv_nonneg)
  show ?thesis
  proof (cases "js_truthy (sessionValue st) \<and>
           js_lt (js_sub (Num (startTime x)) (Num (startTime (last (sessionEntries st)))))
             (Num 1000) \<and>
           js_lt (js_sub (Num (startTime x)) (Num (startTime (hd (sessionEntries st)))))
             (Num 5000)")
    case True
    then have ne': "sessionEntries st \<noteq> []" using ne by simp
    let ?sv = "js_add (sessionValue st) (Num (value x))"
    have sum: "?sv = js_sum (map value (sessionEntries st @ [x]))"
      using inv ne' by (simp add: cls_inv_def js_sum_snoc)
    have svn: "?sv \<noteq> NaN" using nn(2) by (rule js_add_Num_not_NaN)
    show ?thesis
    proof (cases "js_lt (clsValue st) ?sv")
      case gt: True
      have "js_lt (Num 0) ?sv" using pos gt by (rule js_le_lt_trans)
      then show ?thesis using True ne' gt x inv sum svn
        by (auto simp add: measureCLS_entry_def Let_def cls_inv_def split: option.splits)
    next
      case le: False
      show ?thesis using True ne' le x inv sum svn
        by (auto simp add: measureCLS_entry_def Let_def cls_inv_def split: option.splits)
    qed
  next
    case False
    then have cond: "\<not> (js_truthy (sessionValue st) \<and> sessionEntries st = [])"
      using ne by blast
    show ?thesis
    proof (cases "js_lt (clsValue st) (Num (value x))")
      case gt: True
      have "js_lt (Num 0) (Num (value x))" using pos gt by (rule js_le_lt_trans)
      then show ?thesis using False cond gt x inv
        by (auto simp add: measureCLS_entry_def Let_def cls_inv_def split: option.splits)
    next
      case le: False
      show ?thesis using False cond le x inv
        by (auto simp add: measureCLS_entry_def Let_def cls_inv_def split: option.splits)
    qed
  qed
qed

lemma forEach_tagged_batch:
  "forEach (\<lambda>(e, x). g e x) (map (Pair e) xs) st = forEach (g e) xs st"
  by (induction xs arbitrary: st) (auto split: sum.splits)

lemma tagged_simps [simp]:
  "tagged [] = []"
  "tagged ((e, entries) # ns) = map (Pair e) entries @ tagged ns"
  "tagged (ns @ ms) = tagged ns @ tagged ms"
  by (simp_all add: tagged_def)

lemma notify_CLS:
  "notify measureCLS_callback ns st = forEach (\<lambda>(e, x). measureCLS_entry e x) (tagged ns) st"
proof (induction ns arbitrary: st)
  case Nil
  then show ?case by (simp add: notify_def)
next
  case (Cons b ns)
  obtain e entries where b: "b = (e, entries)" by (cases b) auto
  show ?case
    using Cons
    by (simp add: notify_def b measureCLS_callback_def forEach_append forEach_tagged_batch
        split: sum.splits)
qed

text \<open>
  Folding \<open>if (sessionValue > clsValue) clsValue = sessionValue\<close> over session values
  yields one of them (or the start value) that none of them exceeds.
\<close>

lemma running_max:
  assumes "c \<noteq> NaN" and "NaN \<notin> set xs"
  shows "fold (\<lambda>s m. if js_lt m s then s else m) xs c \<in> set (c # xs) \<and>
     (\<forall>s \<in> set (c # xs). js_le s (fold (\<lambda>s m. if js_lt m s then s else m) xs c))"
  using assms
proof (induction xs arbitrary: c)
  case Nil
  then show ?case by simp
next
  case (Cons x xs)
  let ?c = "if js_lt c x then x else c"
  let ?m = "fold (\<lambda>s m. if js_lt m s then s else m) xs ?c"
  have x: "x \<noteq> NaN" and xs: "NaN \<notin> set xs" using Cons.prems(2) by auto
  have c': "?c \<noteq> NaN" using Cons.prems(1) x by simp
  from Cons.IH[OF c' xs] have mem: "?m \<in> set (?c # xs)"
    and ub: "\<forall>s \<in> set (?c # xs). js_le s ?m" by blast+
  have "js_le c ?c" by (simp add: js_le_def)
  moreover have "js_le x ?c" using js_not_lt[OF Cons.prems(1) x] by simp
  moreover have "js_le ?c ?m" using ub by simp
  ultimately have "js_le c ?m" and "js_le x ?m" by (blast intro: js_le_trans)+
  with mem ub show ?case by auto
qed

lemma cls_run:
  assumes "cls_inv st"
  shows "\<exists>st'. forEach (\<lambda>(e, x). measureCLS_entry e x) tes st = Inr st' \<and> cls_inv st' \<and>
     NaN \<notin> set (cls_session_sums tes st) \<and>
     clsValue st' =
       fold (\<lambda>s m. if js_lt m s then s else m) (cls_session_sums tes st) (clsValue st)"
  using assms
proof (induction tes arbitrary: st)
  case Nil
  then show ?case by simp
next
  case (Cons t tes)
  obtain e x where t: "t = (e, x)" by (cases t) auto
  show ?case
  proof (cases "hadRecentInput x")
    case True
    with Cons.IH[OF Cons.prems] show ?thesis
      by (simp add: t cls_entry_ignored)
  next
    case False
    from cls_entry_step[OF Cons.prems False, of e] obtain st1 where
      st1: "measureCLS_entry e x st = Inr st1" "cls_inv st1"
        "clsValue st1 =
           (if js_lt (clsValue st) (sessionValue st1) then sessionValue st1 else clsValue st)"
      by blast
    have "sessionValue st1 \<noteq> NaN" using cls_inv_not_NaN[OF st1(2)] by blast
    with Cons.IH[OF st1(2)] show ?thesis
      using False st1 by (auto simp add: t)
  qed
qed

text \<open>
  C1 (amended). Start with the variables of \<open>measureCLS\<close> as first set and run any
  layout-shift notifications \<open>ns\<close>; then take one more entry \<open>x\<close>. No step throws. An
  entry flagged \<open>hadRecentInput\<close> changes nothing. Any other entry joins the current
  session, its value being added in doubles, exactly when the session value is truthy
  and both differences, from the \<open>startTime\<close> of the session's last entry and of its
  first, as the code computes them in doubles, are below 1000 and below 5000;
  otherwise (no session with a non-zero sum, or a computed gap of 1000 or more, or a
  computed span of 5000 or more) it starts a new session holding just this entry. The
  session value is the sum of the session's shifts as accumulated in doubles.
  \<open>clsValue\<close> is the largest session value seen so far (or 0); the stored CLS sample,
  once there is one, carries that maximum and its rating; and both never decrease
  under further notifications \<open>ms\<close>.
\<close>

theorem cls_session_windows:
  assumes "clsValue st = Num 0" and "sessionValue st = Num 0" and "sessionEntries st = []"
    and "cls (metrics st) = None"
  shows "\<exists>st1 st2 st3.
     notify measureCLS_callback ns st = Inr st1 \<and>
     measureCLS_entry e x st1 = Inr st2 \<and>
     (hadRecentInput x \<longrightarrow> st2 = st1) \<and>
     (\<not> hadRecentInput x \<longrightarrow>
        (sessionValue st2, sessionEntries st2) =
          (if js_truthy (sessionValue st1) \<and>
              js_lt (js_sub (Num (startTime x)) (Num (startTime (last (sessionEntries st1)))))
                (Num 1000) \<and>
              js_lt (js_sub (Num (startTime x)) (Num (startTime (hd (sessionEntries st1)))))
                (Num 5000)
           then (js_add (sessionValue st1) (Num (value x)), sessionEntries st1 @ [x])
           else (Num (value x), [x]))) \<and>
     sessionValue st2 = js_sum (map value (sessionEntries st2)) \<and>
     clsValue st1 \<in> set (Num 0 # cls_session_sums (tagged ns) st) \<and>
     (\<forall>s \<in> set (Num 0 # cls_session_sums (tagged ns) st). js_le s (clsValue st1)) \<and>
     (cls (metrics st1) = None) = (clsValue st1 = Num 0) \<and>
     (\<forall>v. cls (metrics st1) = Some v \<longrightarrow>
        v_value v = clsValue st1 \<and> v_value v \<in> set (cls_session_sums (tagged ns) st) \<and>
        v_rating v = rate_num rateCLS (v_value v)) \<and>
     notify measureCLS_callback (ns @ ms) st = Inr st3 \<and>
     js_le (clsValue st1) (clsValue st3) \<and>
     (\<forall>v. cls (metrics st1) = Some v \<longrightarrow>
        (\<exists>v'. cls (metrics st3) = Some v' \<and> js_le (v_value v) (v_value v')))"
proof -
  have inv: "cls_inv st" using assms by (simp add: cls_inv_def)
  let ?S = "cls_session_sums (tagged ns) st"
  from cls_run[OF inv, of "tagged ns"] obtain st1 where
    st1: "forEach (\<lambda>(e, x). measureCLS_entry e x) (tagged ns) st = Inr st1" "cls_inv st1"
      "NaN \<notin> set ?S"
      "clsValue st1 = fold (\<lambda>s m. if js_lt m s then s else m) ?S (clsValue st)" by blast
  from cls_run[OF st1(2), of "tagged ms"] obtain st3 where
    st3: "forEach (\<lambda>(e, x). measureCLS_entry e x) (tagged ms) st1 = Inr st3" "cls_inv st3"
      "NaN \<notin> set (cls_session_sums (tagged ms) st1)"
      "clsValue st3 =
         fold (\<lambda>s m. if js_lt m s then s else m) (cls_session_sums (tagged ms) st1) (clsValue st1)"
    by blast
  have run3: "notify measureCLS_callback (ns @ ms) st = Inr st3"
    by (simp add: notify_CLS forEach_append st1(1) st3(1))
  have n1: "clsValue st1 \<noteq> NaN" using cls_inv_not_NaN[OF st1(2)] by blast
  have mono: "js_le (clsValue st1) (clsValue st3)"
    using running_max[OF n1 st3(3)] unfolding st3(4) by simp
  have mx: "clsValue st1 \<in> set (Num 0 # ?S)"
    "\<forall>s \<in> set (Num 0 # ?S). js_le s (clsValue st1)"
    using running_max[of "Num 0" ?S] st1(3) unfolding st1(4) assms(1) by simp_all
  have none: "(cls (metrics st1) = None) = (clsValue st1 = Num 0)"
    using st1(2) by (auto simp: cls_inv_def split: option.splits)
  have r1: "notify measureCLS_callback ns st = Inr st1"
    by (simp add: notify_CLS st1(1))
  have some: "\<forall>v. cls (metrics st1) = Some v \<longrightarrow>
        v_value v = clsValue st1 \<and> v_value v \<in> set (cls_session_sums (tagged ns) st) \<and>
        v_rating v = rate_num rateCLS (v_value v)"
  proof (intro allI impI)
    fix v assume v: "cls (metrics st1) = Some v"
    have pos: "js_lt (Num 0) (clsValue st1)" and val: "v_value v = clsValue st1"
      and rt: "v_rating v = rate_num rateCLS (clsValue st1)"
      using st1(2) v by (auto simp: cls_inv_def)
    have "clsValue st1 \<noteq> Num 0" using pos by auto
    with mx(1) have "clsValue st1 \<in> set ?S" by simp
    with val rt show "v_value v = clsValue st1 \<and> v_value v \<in> set ?S \<and>
        v_rating v = rate_num rateCLS (v_value v)" by simp
  qed
  have later: "\<forall>v. cls (metrics st1) = Some v \<longrightarrow>
        (\<exists>v'. cls (metrics st3) = Some v' \<and> js_le (v_value v) (v_value v'))"
  proof (intro allI impI)
    fix v assume v: "cls (metrics st1) = Some v"
    have pos: "js_lt (Num 0) (clsValue st1)" and val: "v_value v = clsValue st1"
      using st1(2) v by (auto simp: cls_inv_def)
    from pos mono have "js_lt (Num 0) (clsValue st3)" by (rule js_lt_le_trans)
    then have "clsValue st3 \<noteq> Num 0" by auto
    then obtain v' where "cls (metrics st3) = Some v'" "v_value v' = clsValue st3"
      using st3(2) by (auto simp: cls_inv_def split: option.splits)
    with mono val show "\<exists>v'. cls (metrics st3) = Some v' \<and> js_le (v_value v) (v_value v')"
      by simp
  qed
  obtain st2 where r2: "measureCLS_entry e x st1 = Inr st2"
    and ign: "hadRecentInput x \<longrightarrow> st2 = st1"
    and step: "\<not> hadRecentInput x \<longrightarrow>
        (sessionValue st2, sessionEntries st2) =
          (if js_truthy (sessionValue st1) \<and>
              js_lt (js_sub (Num (startTime x)) (Num (startTime (last (sessionEntries st1)))))
                (Num 1000) \<and>
              js_lt (js_sub (Num (startTime x)) (Num (startTime (hd (sessionEntries st1)))))
                (Num 5000)
           then (js_add (sessionValue st1) (Num (value x)), sessionEntries st1 @ [x])
           else (Num (value x), [x]))"
    and sum: "sessionValue st2 = js_sum (map value (sessionEntries st2))"
  proof (cases "hadRecentInput x")
    case True
    then have "measureCLS_entry e x st1 = Inr st1" by (rule cls_entry_ignored)
    moreover have "sessionValue st1 = js_sum (map value (sessionEntries st1))"
      using st1(2) by (simp add: cls_inv_def)
    ultimately show ?thesis using True that[of st1] by simp
  next
    case False
    from cls_entry_step[OF st1(2) False, of e] obtain st2 where
      st2: "measureCLS_entry e x st1 = Inr st2" "cls_inv st2"
        "(sessionValue st2, sessionEntries st2) =
          (if js_truthy (sessionValue st1) \<and>
              js_lt (js_sub (Num (startTime x)) (Num (startTime (last (sessionEntries st1)))))
                (Num 1000) \<and>
              js_lt (js_sub (Num (startTime x)) (Num (startTime (hd (sessionEntries st1)))))
                (Num 5000)
           then (js_add (sessionValue st1) (Num (value x)), sessionEntries st1 @ [x])
           else (Num (value x), [x]))" by blast
    have "sessionValue st2 = js_sum (map value (sessionEntries st2))"
      using st2(2) by (simp add: cls_inv_def)
    then show ?thesis using False st2(1,3) that[of st2] by simp
  qed
  show ?thesis
    by (rule exI[of _ st1], rule exI[of _ st2], rule exI[of _ st3])
      (intro conjI; fact r1 r2 ign step sum mx none some run3 mono later)
qed

lemmas cls_eval =
  notify_def measureCLS_callback_def measureCLS_entry_def reportMetric_def
  sendReport_def log_msg_def new_monitor_def example_shift_def example_entry_def state_of_def
  rateCLS_def js_eval

text \<open>
  A shift exactly 1000 ms after the previous one does not exceed 1000 ms, so by the
  spec's words it stays in the session; the code starts a new session with it.
\<close>

theorem cls_gap_1000_counterexample:
  "measureCLS_callback example_env [example_shift 0 0.125]
      (new_monitor 100 False ''/api/performance'') =
     Inr (state_of (new_monitor 100 False ''/api/performance'')
           (measureCLS_callback example_env [example_shift 0 0.125]
              (new_monitor 100 False ''/api/performance''))) \<and>
   \<not> spec_starts_new_session
       (state_of (new_monitor 100 False ''/api/performance'')
          (measureCLS_callback example_env [example_shift 0 0.125]
             (new_monitor 100 False ''/api/performance'')))
       (example_shift 1000 0.125) \<and>
   sessionEntries
     (state_of (new_monitor 100 False ''/api/performance'')
        (measureCLS_callback example_env [example_shift 0 0.125, example_shift 1000 0.125]
           (new_monitor 100 False ''/api/performance''))) = [example_shift 1000 0.125] \<and>
   sessionValue
     (state_of (new_monitor 100 False ''/api/performance'')
        (measureCLS_callback example_env [example_shift 0 0.125, example_shift 1000 0.125]
           (new_monitor 100 False ''/api/performance''))) = Num 0.125"
  by (simp add: cls_eval spec_starts_new_session_def)

theorem cls_session_windows_witness:
  "clsValue (new_monitor 100 False ''/api/performance'') = Num 0 \<and>
   sessionValue (new_monitor 100 False ''/api/performance'') = Num 0 \<and>
   sessionEntries (new_monitor 100 False ''/api/performance'') = [] \<and>
   cls (metrics (new_monitor 100 False ''/api/performance'')) = None \<and>
   \<not> hadRecentInput (example_shift (round_double 1000.3) 0.125) \<and>
   js_sub (Num (round_double 1000.3)) (Num (round_double 0.3)) = Num 1000 \<and>
   (\<exists>st1 st2.
      notify measureCLS_callback
        [(example_env,
          [example_shift 0 (round_double 0.05), example_shift (round_double 0.3) (round_double 0.1)])]
        (new_monitor 100 False ''/api/performance'') = Inr st1 \<and>
      measureCLS_entry example_env (example_shift (round_double 1000.3) 0.125) st1 = Inr st2 \<and>
      clsValue st1 = Num (5404319552844596 / 2 ^ 55) \<and>
      map_option v_value (cls (metrics st1)) = Some (Num (5404319552844596 / 2 ^ 55)) \<and>
      sessionValue st2 = Num 0.125 \<and>
      sessionEntries st2 = [example_shift (round_double 1000.3) 0.125])"
proof -
  let ?st = "new_monitor 100 False ''/api/performance''"
  let ?ns = "[(example_env,
          [example_shift 0 (round_double 0.05), example_shift (round_double 0.3) (round_double 0.1)])]"
  let ?x = "example_shift (round_double 1000.3) 0.125"
  have i: "clsValue ?st = Num 0" "sessionValue ?st = Num 0" "sessionEntries ?st = []"
    "cls (metrics ?st) = None"
    by (simp_all add: new_monitor_def)
  have nx: "\<not> hadRecentInput ?x" by (simp add: example_shift_def example_entry_def)
  have gap: "js_sub (Num (round_double 1000.3)) (Num (round_double 0.3)) = Num 1000"
    by (simp add: js_eval)
  from cls_session_windows [OF i, of ?ns example_env ?x "[]"] show ?thesis
  proof (elim exE conjE)
    fix st1 st2 st3
    assume r1: "notify measureCLS_callback ?ns ?st = Inr st1"
      and r2: "measureCLS_entry example_env ?x st1 = Inr st2"
      and step: "\<not> hadRecentInput ?x \<longrightarrow>
          (sessionValue st2, sessionEntries st2) =
          (if js_truthy (sessionValue st1) \<and>
              js_lt (js_sub (Num (startTime ?x)) (Num (startTime (last (sessionEntries st1)))))
                (Num 1000) \<and>
              js_lt (js_sub (Num (startTime ?x)) (Num (startTime (hd (sessionEntries st1)))))
                (Num 5000)
           then (js_add (sessionValue st1) (Num (value ?x)), sessionEntries st1 @ [?x])
           else (Num (value ?x), [?x]))"
      and rep: "\<forall>v. cls (metrics st1) = Some v \<longrightarrow>
          v_value v = clsValue st1 \<and> v_value v \<in> set (cls_session_sums (tagged ?ns) ?st) \<and>
          v_rating v = rate_num rateCLS (v_value v)"
      and none: "(cls (metrics st1) = None) = (clsValue st1 = Num 0)"
    have st1: "st1 = state_of ?st (notify measureCLS_callback ?ns ?st)"
      by (simp only: r1 state_of_def sum.case)
    have c1: "clsValue st1 = Num (5404319552844596 / 2 ^ 55)"
      unfolding st1 by (simp add: cls_eval)
    with none obtain v where v: "cls (metrics st1) = Some v" by auto
    with rep c1 have c2: "map_option v_value (cls (metrics st1)) = Some (Num (5404319552844596 / 2 ^ 55))"
      by simp
    have "startTime (last (sessionEntries st1)) = round_double 0.3"
      unfolding st1 by (simp add: cls_eval)
    with step nx gap have "sessionValue st2 = Num 0.125 \<and> sessionEntries st2 = [?x]"
      by (simp add: example_shift_def example_entry_def)
    with r1 r2 c1 c2 i nx gap show ?thesis
      by (intro conjI exI[of _ st1] exI[of _ st2]) simp_all
  qed
qed

section \<open>Resource issues\<close>

lemma pow2_powr: "pow2 k = 2 powr (of_int k)"
proof (cases "0 \<le> k")
  case True
  then show ?thesis by (simp add: pow2_def powr_realpow[symmetric])
next
  case False
  then have r: "real (nat (- k)) = - of_int k" by simp
  have "(2::real) ^ nat (- k) = 2 powr real (nat (- k))" by (simp add: powr_realpow)
  then have "(2::real) ^ nat (- k) = 2 powr (- of_int k)" by (simp only: r)
  then have "1 / (2::real) ^ nat (- k) = 2 powr (of_int k)"
    by (simp add: powr_minus_divide)
  then show ?thesis using False by (simp add: pow2_def)
qed

lemma pow2_pos [simp]: "0 < pow2 k"
  by (simp add: pow2_powr)

lemma pow2_le_iff [simp]: "(pow2 a \<le> pow2 b) = (a \<le> b)"
  by (simp add: pow2_powr)

lemma pow2_less_iff [simp]: "(pow2 a < pow2 b) = (a < b)"
  by (simp add: pow2_powr)

lemma pow2_add: "pow2 (a + b) = pow2 a * pow2 b"
  by (simp add: pow2_powr powr_add)

lemma round_even_cases: "round_even x = \<lfloor>x\<rfloor> \<or> round_even x = \<lfloor>x\<rfloor> + 1"
  by (simp add: round_even_def Let_def)

lemma round_even_upper: "of_int (round_even x) \<le> x + 1 / 2"
  by (auto simp: round_even_def Let_def) linarith+

lemma round_even_lower: "x - 1 / 2 \<le> of_int (round_even x)"
  by (auto simp: round_even_def Let_def) linarith+

lemma round_even_ge: "of_int m \<le> x \<Longrightarrow> m \<le> round_even x"
proof -
  assume "of_int m \<le> x"
  then have "m \<le> \<lfloor>x\<rfloor>" by (simp add: le_floor_iff)
  with round_even_cases[of x] show ?thesis by auto
qed

lemma round_even_le: "x \<le> of_int m \<Longrightarrow> round_even x \<le> m"
proof -
  assume le: "x \<le> of_int m"
  then have f: "\<lfloor>x\<rfloor> \<le> m" by (simp add: floor_le_iff)
  show ?thesis
  proof (cases "\<lfloor>x\<rfloor> = m")
    case True
    then have "x = of_int m" using le by linarith
    then show ?thesis by (simp add: round_even_def Let_def)
  next
    case False
    with f have "\<lfloor>x\<rfloor> + 1 \<le> m" by simp
    with round_even_cases[of x] show ?thesis by auto
  qed
qed

lemma binade_bounds:
  assumes "x \<noteq> 0"
  shows "pow2 (binade x) \<le> \<bar>x\<bar>" and "\<bar>x\<bar> < pow2 (binade x + 1)"
proof -
  show "pow2 (binade x) \<le> \<bar>x\<bar>"
  proof (cases "1 \<le> \<bar>x\<bar>")
    case True
    let ?n = "\<lfloor>\<bar>x\<bar>\<rfloor>"
    have n: "0 < ?n" using True by simp
    from bitlen_bounds[OF n] have "2 ^ nat (bitlen ?n - 1) \<le> ?n" by blast
    then have "(2::real) ^ nat (bitlen ?n - 1) \<le> of_int ?n"
      by (metis of_int_le_iff of_int_numeral of_int_power)
    also have "\<dots> \<le> \<bar>x\<bar>" by simp
    finally have "(2::real) ^ nat (bitlen ?n - 1) \<le> \<bar>x\<bar>" .
    moreover have "1 \<le> bitlen ?n" using n by (simp add: bitlen_alt_def)
    ultimately show ?thesis using True by (simp add: binade_def pow2_def)
  next
    case False
    then have lt: "\<bar>x\<bar> < 1" and pos: "0 < \<bar>x\<bar>" using assms by simp_all
    let ?m = "\<lceil>1 / \<bar>x\<bar>\<rceil> - 1"
    have "1 < 1 / \<bar>x\<bar>" using lt pos by simp
    then have m: "0 < ?m" by (simp add: less_ceiling_iff)
    from bitlen_bounds[OF m] have "?m < 2 ^ nat (bitlen ?m)" by blast
    then have "?m + 1 \<le> 2 ^ nat (bitlen ?m)" by simp
    then have "(of_int (?m + 1) :: real) \<le> 2 ^ nat (bitlen ?m)"
      by (metis of_int_le_iff of_int_numeral of_int_power)
    moreover have "1 / \<bar>x\<bar> \<le> of_int (?m + 1)" by simp
    ultimately have "1 / \<bar>x\<bar> \<le> 2 ^ nat (bitlen ?m)" by linarith
    then have "1 / 2 ^ nat (bitlen ?m) \<le> \<bar>x\<bar>"
      using pos by (simp add: field_simps)
    moreover have "0 \<le> bitlen ?m" by (rule bitlen_nonneg)
    moreover have "bitlen ?m \<noteq> 0" using m by (simp add: bitlen_eq_zero_iff)
    ultimately show ?thesis using False by (simp add: binade_def pow2_def)
  qed
  show "\<bar>x\<bar> < pow2 (binade x + 1)"
  proof (cases "1 \<le> \<bar>x\<bar>")
    case True
    let ?n = "\<lfloor>\<bar>x\<bar>\<rfloor>"
    have n: "0 < ?n" using True by simp
    from bitlen_bounds[OF n] have "?n < 2 ^ nat (bitlen ?n)" by blast
    then have "?n + 1 \<le> 2 ^ nat (bitlen ?n)" by simp
    then have "(of_int (?n + 1) :: real) \<le> 2 ^ nat (bitlen ?n)"
      by (metis of_int_le_iff of_int_numeral of_int_power)
    moreover have "\<bar>x\<bar> < of_int (?n + 1)" by simp
    ultimately have "\<bar>x\<bar> < 2 ^ nat (bitlen ?n)" by linarith
    moreover have "0 \<le> bitlen ?n" by (rule bitlen_nonneg)
    ultimately show ?thesis using True by (simp add: binade_def pow2_def)
  next
    case False
    then have lt: "\<bar>x\<bar> < 1" and pos: "0 < \<bar>x\<bar>" using assms by simp_all
    let ?m = "\<lceil>1 / \<bar>x\<bar>\<rceil> - 1"
    have "1 < 1 / \<bar>x\<bar>" using lt pos by simp
    then have m: "0 < ?m" by (simp add: less_ceiling_iff)
    have b1: "1 \<le> bitlen ?m" using m by (simp add: bitlen_alt_def)
    from bitlen_bounds[OF m] have "2 ^ nat (bitlen ?m - 1) \<le> ?m" by blast
    then have "(2::real) ^ nat (bitlen ?m - 1) \<le> of_int ?m"
      by (metis of_int_le_iff of_int_numeral of_int_power)
    moreover have "of_int ?m < 1 / \<bar>x\<bar>" by simp linarith
    ultimately have "(2::real) ^ nat (bitlen ?m - 1) < 1 / \<bar>x\<bar>" by linarith
    then have "\<bar>x\<bar> < 1 / 2 ^ nat (bitlen ?m - 1)"
      using pos by (simp add: field_simps)
    then show ?thesis
    proof (cases "bitlen ?m = 1")
      case True
      with \<open>\<bar>x\<bar> < 1 / 2 ^ nat (bitlen ?m - 1)\<close> show ?thesis
        using False by (simp add: binade_def pow2_def)
    next
      case ne: False
      with b1 have "1 < bitlen ?m" by simp
      then have "nat (bitlen ?m - 1) = nat (bitlen ?m) - 1" "\<not> 0 \<le> - bitlen ?m + 1"
        "nat (- (- bitlen ?m + 1)) = nat (bitlen ?m - 1)" by simp_all
      with \<open>\<bar>x\<bar> < 1 / 2 ^ nat (bitlen ?m - 1)\<close> show ?thesis
        using False by (simp add: binade_def pow2_def)
    qed
  qed
qed

lemma pow2_nz [simp]: "pow2 k \<noteq> 0"
  by (simp add: pow2_powr)

lemma pow2_nonneg [simp]: "0 \<le> pow2 k"
  by (simp add: pow2_powr)

lemma round_double_nonpos: "y \<le> 0 \<Longrightarrow> round_double y \<le> 0"
proof (cases "y = 0")
  case True
  then show ?thesis by (simp add: round_double_def)
next
  case False
  assume "y \<le> 0"
  let ?u = "pow2 (max (binade y) (- 1022) - 52)"
  have "y / ?u \<le> of_int 0" using \<open>y \<le> 0\<close> by (simp add: divide_nonpos_pos)
  then have "round_even (y / ?u) \<le> 0" by (rule round_even_le)
  then have "(of_int (round_even (y / ?u)) :: real) \<le> 0" by simp
  then have "of_int (round_even (y / ?u)) * ?u \<le> 0"
    by (simp add: mult_le_0_iff)
  then show ?thesis using False by (simp add: round_double_def Let_def)
qed

lemma round_double_near:
  assumes "y \<noteq> 0"
  shows "round_double y \<le> y + pow2 (max (binade y) (- 1022) - 52) / 2"
    and "y - pow2 (max (binade y) (- 1022) - 52) / 2 \<le> round_double y"
proof -
  let ?u = "pow2 (max (binade y) (- 1022) - 52)"
  have u: "0 < ?u" by simp
  have rd: "round_double y = of_int (round_even (y / ?u)) * ?u"
    using assms by (simp add: round_double_def Let_def)
  have "of_int (round_even (y / ?u)) * ?u \<le> (y / ?u + 1 / 2) * ?u"
    using round_even_upper[of "y / ?u"] u by (simp only: mult_le_cancel_right_pos)
  also have "\<dots> = y + ?u / 2" using u by (simp add: field_simps)
  finally show "round_double y \<le> y + ?u / 2" by (simp only: rd)
  have "(y / ?u - 1 / 2) * ?u \<le> of_int (round_even (y / ?u)) * ?u"
    using round_even_lower[of "y / ?u"] u by (simp only: mult_le_cancel_right_pos)
  moreover have "(y / ?u - 1 / 2) * ?u = y - ?u / 2" using u by (simp add: field_simps)
  ultimately show "y - ?u / 2 \<le> round_double y" by (simp only: rd)
qed

lemma fl_below_50:
  assumes "y \<le> 49.9"
  shows "js_lt (fl y) (Num 50)"
proof (cases "y \<le> 0")
  case True
  then have "round_double y \<le> 0" by (rule round_double_nonpos)
  then show ?thesis by (simp add: fl_def Let_def)
next
  case False
  then have pos: "0 < y" and ne: "y \<noteq> 0" by simp_all
  have "pow2 (binade y) \<le> \<bar>y\<bar>" using binade_bounds(1)[OF ne] .
  also have "\<bar>y\<bar> < pow2 6" using assms pos by (simp add: pow2_def)
  finally have "binade y < 6" by simp
  then have "max (binade y) (- 1022) - 52 \<le> - 47" by simp
  then have "pow2 (max (binade y) (- 1022) - 52) \<le> pow2 (- 47)" by simp
  also have "\<dots> \<le> 1 / 100" by (simp add: pow2_def)
  finally have u: "pow2 (max (binade y) (- 1022) - 52) \<le> 1 / 100" .
  have "round_double y < 50" "- 1 < round_double y"
    using round_double_near[OF ne] u assms pos by linarith+
  then show ?thesis by (simp add: fl_def Let_def)
qed

lemma fl_not_below_50:
  assumes "50 \<le> y"
  shows "\<not> js_lt (fl y) (Num 50)"
proof -
  have ne: "y \<noteq> 0" and abs: "\<bar>y\<bar> = y" using assms by simp_all
  have "pow2 5 < \<bar>y\<bar>" using assms by (simp add: pow2_def)
  also have "\<bar>y\<bar> < pow2 (binade y + 1)" using binade_bounds(2)[OF ne] .
  finally have e5: "5 \<le> binade y" by simp
  have ge: "50 \<le> round_double y"
  proof (cases "binade y = 5")
    case True
    have u: "pow2 (max (binade y) (- 1022) - 52) = 1 / 2 ^ 47"
      by (simp add: True pow2_def)
    have "of_int (50 * 2 ^ 47) \<le> y / (1 / 2 ^ 47)" using assms by simp
    then have "50 * 2 ^ 47 \<le> round_even (y / (1 / 2 ^ 47))" by (rule round_even_ge)
    then have "(of_int (50 * 2 ^ 47) :: real) \<le> of_int (round_even (y / (1 / 2 ^ 47)))"
      by (simp only: of_int_le_iff)
    then have "50 \<le> of_int (round_even (y / (1 / 2 ^ 47))) * (1 / 2 ^ 47 :: real)"
      by simp
    then show ?thesis using ne by (simp add: round_double_def Let_def u)
  next
    case False
    with e5 have e6: "6 \<le> binade y" by simp
    let ?e = "binade y"
    have m: "max ?e (- 1022) - 52 = ?e - 52" using e6 by simp
    have "pow2 ?e = pow2 (?e - 52) * pow2 52"
      using pow2_add[of "?e - 52" 52] by simp
    then have eq: "pow2 ?e = pow2 (?e - 52) * 4503599627370496"
      by (simp add: pow2_def[of 52])
    have "0 < pow2 (?e - 52)" by simp
    then have u: "pow2 (?e - 52) / 2 \<le> pow2 ?e / 100"
      unfolding eq by simp
    have "pow2 6 \<le> pow2 ?e" using e6 by simp
    then have p: "64 \<le> pow2 ?e" by (simp add: pow2_def[of 6])
    have "pow2 ?e \<le> y" using binade_bounds(1)[OF ne] abs by simp
    with round_double_near(2)[OF ne] u p show ?thesis
      by (simp only: m)
  qed
  then show ?thesis by (simp add: fl_def Let_def)
qed

lemma toFixed1_tenths: "\<exists>k::int. toFixed 1 r = of_int k / 10"
  by (cases "r < 0") (auto simp: toFixed_def intro: exI[of _ "- \<lfloor>- r * 10 + 1 / 2\<rfloor>"])

lemma toFixed1_below_50:
  "(toFixed 1 r < 50) = (r < 49.95)"
proof (cases "r < 0")
  case True
  have "0 \<le> \<lfloor>- r * 10 ^ 1 + 1 / 2\<rfloor>" using True by simp
  then have "0 \<le> (of_int \<lfloor>- r * 10 ^ 1 + 1 / 2\<rfloor> :: real) / 10 ^ 1" by simp
  then have "toFixed 1 r \<le> 0" using True by (simp only: toFixed_def if_True)
  then show ?thesis using True by simp
next
  case False
  have "(of_int \<lfloor>r * 10 + 1 / 2\<rfloor> / 10 < (50::real)) = (of_int \<lfloor>r * 10 + 1 / 2\<rfloor> < (500::real))"
    by simp
  also have "\<dots> = (\<lfloor>r * 10 + 1 / 2\<rfloor> < 500)"
    by (metis of_int_less_iff of_int_numeral)
  also have "\<dots> = (r * 10 + 1 / 2 < 500)"
    using floor_less_iff[of "r * 10 + 1 / 2" 500] by simp
  also have "\<dots> = (r < 49.95)" by (simp add: field_simps)
  finally show ?thesis using False by (simp add: toFixed_def)
qed

lemma compression_test:
  "js_lt (string_to_number (js_toFixed 1 q)) (Num 50) = js_lt q (Num 49.95)"
proof (cases q)
  case (Num r)
  obtain k :: int where k: "toFixed 1 r = of_int k / 10" using toFixed1_tenths by blast
  have "js_lt (fl (toFixed 1 r)) (Num 50) = (toFixed 1 r < 50)"
  proof (cases "toFixed 1 r < 50")
    case True
    then have "k < 500" using k by simp
    then have "k \<le> 499" by simp
    then have "(of_int k :: real) \<le> 499" by (metis of_int_le_iff of_int_numeral)
    then have "toFixed 1 r \<le> 49.9" using k by simp
    then show ?thesis using True fl_below_50 by simp
  next
    case False
    then have "50 \<le> toFixed 1 r" by simp
    then show ?thesis using False fl_not_below_50 by simp
  qed
  then show ?thesis
    unfolding Num
    by (simp only: js_toFixed.simps string_to_number.simps js_lt.simps toFixed1_below_50)
qed simp_all

text \<open>
  C8 (amended). For every resource-timing entry: \<open>slow_loading\<close> is flagged exactly when
  \<open>responseEnd - startTime\<close>, as computed in doubles, exceeds 3000 (a computed 3001 is
  flagged, a computed 3000 is not); \<open>poor_compression\<close> exactly when \<open>transferSize\<close>
  exceeds 1,000,000 and the recorded compression figure is below 50, that figure being
  the percentage saved, computed in doubles and written with one decimal, or 0 when
  the encoded size is not positive (so the test is: encoded size not positive, or
  computed percentage below 49.95); \<open>not_cached\<close> exactly when the name ends in one of
  the listed extensions and the entry is not a cache hit, a cache hit being a zero
  transfer size together with a positive decoded size. A sample is recorded exactly
  when some issue is flagged.
\<close>

theorem resource_issue_flags:
  "(''slow_loading'' \<in> set (resource_issues x (analyse x))) =
     js_lt (Num 3000) (js_sub (Num (responseEnd x)) (Num (startTime x))) \<and>
   (js_sub (Num (responseEnd x)) (Num (startTime x)) = Num 3001 \<longrightarrow>
      ''slow_loading'' \<in> set (resource_issues x (analyse x))) \<and>
   (js_sub (Num (responseEnd x)) (Num (startTime x)) = Num 3000 \<longrightarrow>
      ''slow_loading'' \<notin> set (resource_issues x (analyse x))) \<and>
   (''poor_compression'' \<in> set (resource_issues x (analyse x))) =
     (transferSize x > 1000000 \<and>
      js_lt (string_to_number (a_compression (analyse x))) (Num 50)) \<and>
   a_compression (analyse x) =
     (if encodedBodySize x > 0 then js_toFixed 1 (compression_percent x) else Num 0) \<and>
   js_lt (string_to_number (a_compression (analyse x))) (Num 50) =
     (encodedBodySize x > 0 \<longrightarrow> js_lt (compression_percent x) (Num 49.95)) \<and>
   (''not_cached'' \<in> set (resource_issues x (analyse x))) =
     (ends_with_ext [''css'', ''js'', ''woff'', ''woff2'', ''png'', ''jpg'', ''jpeg''] (name x) \<and>
      \<not> (transferSize x = 0 \<and> decodedBodySize x > 0)) \<and>
   analyzeResourcePerformance e x st =
     (if resource_issues x (analyse x) = [] then st
      else reportMetric e ''resource_issue''
             (ResourceData ((analyse x)\<lparr>a_issues := resource_issues x (analyse x)\<rparr>)) st)"
proof -
  have a: "a_duration (analyse x) = js_sub (Num (responseEnd x)) (Num (startTime x))"
    "a_size (analyse x) = transferSize x"
    "a_cached (analyse x) = (transferSize x = 0 \<and> decodedBodySize x > 0)"
    by (simp_all add: analyse_def)
  have c: "a_compression (analyse x) =
     (if encodedBodySize x > 0 then js_toFixed 1 (compression_percent x) else Num 0)"
    by (simp add: analyse_def)
  have zero: "string_to_number (Num 0) = Num 0"
    by (simp add: fl_def round_double_def)
  have t: "js_lt (string_to_number (a_compression (analyse x))) (Num 50) =
     (encodedBodySize x > 0 \<longrightarrow> js_lt (compression_percent x) (Num 49.95))"
  proof (cases "encodedBodySize x > 0")
    case True
    then show ?thesis by (simp only: c if_True compression_test) simp
  next
    case False
    then show ?thesis by (simp only: c if_False zero) simp
  qed
  have slow: "(''slow_loading'' \<in> set (resource_issues x (analyse x))) =
     js_lt (Num 3000) (js_sub (Num (responseEnd x)) (Num (startTime x)))"
    by (simp add: resource_issues_def a)
  have poor: "(''poor_compression'' \<in> set (resource_issues x (analyse x))) =
     (transferSize x > 1000000 \<and>
      js_lt (string_to_number (a_compression (analyse x))) (Num 50))"
    by (simp add: resource_issues_def a)
  have nc: "(''not_cached'' \<in> set (resource_issues x (analyse x))) =
     (ends_with_ext [''css'', ''js'', ''woff'', ''woff2'', ''png'', ''jpg'', ''jpeg''] (name x) \<and>
      \<not> (transferSize x = 0 \<and> decodedBodySize x > 0))"
    by (auto simp add: resource_issues_def a)
  have rep: "analyzeResourcePerformance e x st =
     (if resource_issues x (analyse x) = [] then st
      else reportMetric e ''resource_issue''
             (ResourceData ((analyse x)\<lparr>a_issues := resource_issues x (analyse x)\<rparr>)) st)"
    by (simp add: analyzeResourcePerformance_def Let_def)
  have s1: "js_sub (Num (responseEnd x)) (Num (startTime x)) = Num 3001 \<longrightarrow>
      ''slow_loading'' \<in> set (resource_issues x (analyse x))"
    unfolding slow by simp
  have s0: "js_sub (Num (responseEnd x)) (Num (startTime x)) = Num 3000 \<longrightarrow>
      ''slow_loading'' \<notin> set (resource_issues x (analyse x))"
    unfolding slow by simp
  show ?thesis
    by (intro conjI; fact slow s1 s0 poor c t nc rep)
qed

text \<open>
  A stylesheet with zero transfer size and zero decoded size (as reported for a
  cross-origin resource without timing permission) is flagged \<open>not_cached\<close>.
\<close>

theorem uncached_zero_transfer_counterexample:
  "transferSize (example_resource 120 0 0 0) = 0 \<and>
   ends_with_ext [''css'', ''js'', ''woff'', ''woff2'', ''png'', ''jpg'', ''jpeg'']
     (name (example_resource 120 0 0 0)) \<and>
   resource_issues (example_resource 120 0 0 0) (analyse (example_resource 120 0 0 0)) =
     [''not_cached'']"
  by (simp add: example_resource_def example_entry_def resource_issues_def analyse_def
      ends_with_ext_def suffix_def js_eval)

theorem resource_issue_flags_witness:
  "js_sub (Num (responseEnd (example_resource 3001 1200000 600300 1200000)))
     (Num (startTime (example_resource 3001 1200000 600300 1200000))) = Num 3001 \<and>
   resource_issues (example_resource 3001 1200000 600300 1200000)
     (analyse (example_resource 3001 1200000 600300 1200000)) =
     [''slow_loading'', ''not_cached''] \<and>
   js_sub
     (Num (responseEnd
        ((example_resource (round_double 3000.3) 1200000 700000 1200000)
           \<lparr>startTime := round_double 0.3\<rparr>)))
     (Num (startTime
        ((example_resource (round_double 3000.3) 1200000 700000 1200000)
           \<lparr>startTime := round_double 0.3\<rparr>))) = Num 3000 \<and>
   0 < encodedBodySize
     ((example_resource (round_double 3000.3) 1200000 700000 1200000)
        \<lparr>startTime := round_double 0.3\<rparr>) \<and>
   resource_issues
     ((example_resource (round_double 3000.3) 1200000 700000 1200000)
        \<lparr>startTime := round_double 0.3\<rparr>)
     (analyse
        ((example_resource (round_double 3000.3) 1200000 700000 1200000)
           \<lparr>startTime := round_double 0.3\<rparr>)) =
     [''poor_compression'', ''not_cached'']"
  using resource_issue_flags [of "example_resource 3001 1200000 600300 1200000"]
    resource_issue_flags
      [of "(example_resource (round_double 3000.3) 1200000 700000 1200000)
             \<lparr>startTime := round_double 0.3\<rparr>"]
  by (simp add: example_resource_def example_entry_def resource_issues_def analyse_def
      compression_percent_def ends_with_ext_def suffix_def toFixed_def js_eval)

end
